theory Spec2Isabelle
  imports Main "HOL-Library.Word"
begin

section \<open>Shared protocol types\<close>

text \<open>
  \<^verbatim>\<open>QOpcUa::UaStatusCode\<close> is an enum over \<^verbatim>\<open>quint32\<close> declared in
  \<^verbatim>\<open>qopcuatype.h\<close>; the sources only name the enumerator \<^verbatim>\<open>Good\<close>.  The model keeps
  the 32-bit value.  \<open>BadUnexpectedError\<close> is the OPC UA code \<^verbatim>\<open>0x80010000\<close>, used as a
  sample failure code.
\<close>

type_synonym UaStatusCode = "32 word"

definition Good :: UaStatusCode where
  "Good = 0"

definition BadUnexpectedError :: UaStatusCode where
  "BadUnexpectedError = 0x80010000"


section \<open>QOpcUaHistoryData (qopcuahistorydata.cpp)\<close>

subsection \<open>The shared data block and the store\<close>

text \<open>
  \<^verbatim>\<open>class QOpcUaHistoryDataData : public QSharedData\<close>: the three members of the class
  and the reference counter inherited from \<^verbatim>\<open>QSharedData\<close>.  The element type
  \<^verbatim>\<open>QOpcUaDataValue\<close> is a type parameter.
\<close>

record 'v QOpcUaHistoryDataData =
  ref :: int
  d_result :: "'v list"
  d_statusCode :: UaStatusCode
  d_nodeId :: string

text \<open>
  The store: \<open>heap\<close> holds the allocated data blocks by address, \<open>dptr\<close> gives for the
  address of every live \<^verbatim>\<open>QOpcUaHistoryData\<close> object the value of its member
  \<^verbatim>\<open>QSharedDataPointer<QOpcUaHistoryDataData> data\<close>, and \<open>brk\<close> is the address the
  next \<^verbatim>\<open>new\<close> returns.
\<close>

record 'v memory =
  heap :: "nat \<rightharpoonup> 'v QOpcUaHistoryDataData"
  dptr :: "nat \<rightharpoonup> nat"
  brk :: nat

definition empty_memory :: "'v memory" where
  "empty_memory = \<lparr>heap = Map.empty, dptr = Map.empty, brk = 0\<rparr>"

subsection \<open>QSharedDataPointer\<close>

text \<open>
  \<^verbatim>\<open>data->\<close> in a \<^verbatim>\<open>const\<close> member function: the block is read and nothing is
  detached.  \<open>None\<close> stands for a receiver that is not a live object.
\<close>

definition const_data :: "nat \<Rightarrow> 'v memory \<Rightarrow> 'v QOpcUaHistoryDataData option" where
  "const_data this m = (case dptr m this of None \<Rightarrow> None | Some p \<Rightarrow> heap m p)"

text \<open>
  \<^verbatim>\<open>QSharedDataPointer::detach()\<close>: when the counter of the block is not 1 the block is
  cloned (the clone starts with counter 1), the counter of the old block is decremented,
  the old block is deleted when the counter reaches 0, and the pointer moves to the
  clone.
\<close>

definition detach :: "nat \<Rightarrow> 'v memory \<Rightarrow> 'v memory option" where
  "detach this m =
     (case dptr m this of
        None \<Rightarrow> None
      | Some p \<Rightarrow>
          (case heap m p of
             None \<Rightarrow> None
           | Some blk \<Rightarrow>
               if ref blk \<noteq> 1 then
                 let x = brk m;
                     h1 = (heap m)(x \<mapsto> blk\<lparr>ref := 1\<rparr>);
                     h2 = (if ref blk - 1 = 0 then h1(p := None)
                           else h1(p \<mapsto> blk\<lparr>ref := ref blk - 1\<rparr>))
                 in Some (m\<lparr>heap := h2, dptr := (dptr m)(this \<mapsto> x), brk := Suc x\<rparr>)
               else Some m))"

text \<open>
  \<^verbatim>\<open>data->\<close> in a non-\<^verbatim>\<open>const\<close> member function: detach first, then change the
  block the pointer now refers to.
\<close>

definition mutable_data ::
  "nat \<Rightarrow> ('v QOpcUaHistoryDataData \<Rightarrow> 'v QOpcUaHistoryDataData) \<Rightarrow> 'v memory \<Rightarrow> 'v memory option" where
  "mutable_data this f m =
     (case detach this m of
        None \<Rightarrow> None
      | Some m' \<Rightarrow>
          (case dptr m' this of
             None \<Rightarrow> None
           | Some p \<Rightarrow>
               (case heap m' p of
                  None \<Rightarrow> None
                | Some blk \<Rightarrow> Some (m'\<lparr>heap := (heap m')(p \<mapsto> f blk)\<rparr>))))"

text \<open>
  \<^verbatim>\<open>QSharedDataPointer(T *data)\<close> applied to \<^verbatim>\<open>new QOpcUaHistoryDataData\<close>: a fresh
  block whose counter the pointer raises to 1.  The status code of the fresh block is
  indeterminate until the constructor body assigns it; the model starts it at the value
  both constructor bodies assign.
\<close>

definition new_data :: "nat \<Rightarrow> 'v memory \<Rightarrow> 'v memory" where
  "new_data this m =
     m\<lparr>heap := (heap m)(brk m \<mapsto> \<lparr>ref = 1, d_result = [], d_statusCode = Good, d_nodeId = []\<rparr>),
       dptr := (dptr m)(this \<mapsto> brk m),
       brk := Suc (brk m)\<rparr>"

text \<open>
  Dropping one reference to block \<open>p\<close> (\<^verbatim>\<open>if (!d->ref.deref()) delete d\<close>).
\<close>

definition deref :: "nat \<Rightarrow> 'v memory \<Rightarrow> 'v memory" where
  "deref p m =
     (case heap m p of
        None \<Rightarrow> m
      | Some blk \<Rightarrow>
          if ref blk - 1 = 0 then m\<lparr>heap := (heap m)(p := None)\<rparr>
          else m\<lparr>heap := (heap m)(p \<mapsto> blk\<lparr>ref := ref blk - 1\<rparr>)\<rparr>)"

text \<open>
  \<^verbatim>\<open>QSharedDataPointer::operator=(const QSharedDataPointer &o)\<close>: nothing happens when
  both already point to the same block; otherwise the counter of the other block is
  raised, the pointer is redirected and the reference to the old block is dropped.
\<close>

definition sdp_assign :: "nat \<Rightarrow> nat \<Rightarrow> 'v memory \<Rightarrow> 'v memory option" where
  "sdp_assign this rhs m =
     (case (dptr m this, dptr m rhs) of
        (Some old, Some p) \<Rightarrow>
          if p \<noteq> old then
            (case heap m p of
               None \<Rightarrow> None
             | Some blk \<Rightarrow>
                 Some (deref old
                   (m\<lparr>heap := (heap m)(p \<mapsto> blk\<lparr>ref := ref blk + 1\<rparr>),
                      dptr := (dptr m)(this \<mapsto> p)\<rparr>)))
          else Some m
      | _ \<Rightarrow> None)"

subsection \<open>The member functions\<close>

text \<open>\<^verbatim>\<open>QOpcUaHistoryData::QOpcUaHistoryData()\<close>, for the object at address \<open>this\<close>.\<close>

definition QOpcUaHistoryData :: "nat \<Rightarrow> 'v memory \<Rightarrow> 'v memory option" where
  "QOpcUaHistoryData this m =
     mutable_data this (\<lambda>blk. blk\<lparr>d_statusCode := Good\<rparr>) (new_data this m)"

text \<open>\<^verbatim>\<open>QOpcUaHistoryData::QOpcUaHistoryData(const QString &nodeId)\<close>.\<close>

definition QOpcUaHistoryData_nodeId :: "nat \<Rightarrow> string \<Rightarrow> 'v memory \<Rightarrow> 'v memory option" where
  "QOpcUaHistoryData_nodeId this nid m =
     (case mutable_data this (\<lambda>blk. blk\<lparr>d_statusCode := Good\<rparr>) (new_data this m) of
        None \<Rightarrow> None
      | Some m' \<Rightarrow> mutable_data this (\<lambda>blk. blk\<lparr>d_nodeId := nid\<rparr>) m')"

text \<open>
  \<^verbatim>\<open>QOpcUaHistoryData::QOpcUaHistoryData(const QOpcUaHistoryData &other)\<close>: the new
  object shares the block of \<open>other\<close> and raises its counter.
\<close>

definition QOpcUaHistoryData_copy :: "nat \<Rightarrow> nat \<Rightarrow> 'v memory \<Rightarrow> 'v memory option" where
  "QOpcUaHistoryData_copy this other m =
     (case dptr m other of
        None \<Rightarrow> None
      | Some p \<Rightarrow>
          (case heap m p of
             None \<Rightarrow> None
           | Some blk \<Rightarrow>
               Some (m\<lparr>heap := (heap m)(p \<mapsto> blk\<lparr>ref := ref blk + 1\<rparr>),
                       dptr := (dptr m)(this \<mapsto> p)\<rparr>)))"

text \<open>\<^verbatim>\<open>QOpcUaHistoryData::~QOpcUaHistoryData()\<close>: the member pointer drops its reference.\<close>

definition QOpcUaHistoryData_dtor :: "nat \<Rightarrow> 'v memory \<Rightarrow> 'v memory option" where
  "QOpcUaHistoryData_dtor this m =
     (case dptr m this of
        None \<Rightarrow> None
      | Some p \<Rightarrow> Some (deref p (m\<lparr>dptr := (dptr m)(this := None)\<rparr>)))"


definition setStatusCode :: "nat \<Rightarrow> UaStatusCode \<Rightarrow> 'v memory \<Rightarrow> 'v memory option" where
  "setStatusCode this c m = mutable_data this (\<lambda>blk. blk\<lparr>d_statusCode := c\<rparr>) m"

definition result :: "nat \<Rightarrow> 'v memory \<Rightarrow> 'v list option" where
  "result this m = map_option d_result (const_data this m)"

text \<open>
  \<^verbatim>\<open>resultRef()\<close> is not \<^verbatim>\<open>const\<close>: it detaches and returns a reference to
  the list inside the block that the object then points to.  The reference is the
  address of that block: it keeps referring to the list of that block, whatever happens
  to the object or to the counter of the block afterwards.
\<close>

definition resultRef :: "nat \<Rightarrow> 'v memory \<Rightarrow> (nat \<times> 'v memory) option" where
  "resultRef this m =
     (case detach this m of
        None \<Rightarrow> None
      | Some m' \<Rightarrow> map_option (\<lambda>p. (p, m')) (dptr m' this))"


definition ref_write :: "nat \<Rightarrow> 'v list \<Rightarrow> 'v memory \<Rightarrow> 'v memory option" where
  "ref_write r ys m =
     (case heap m r of
        None \<Rightarrow> None
      | Some blk \<Rightarrow> Some (m\<lparr>heap := (heap m)(r \<mapsto> blk\<lparr>d_result := ys\<rparr>)\<rparr>))"

definition count :: "nat \<Rightarrow> 'v memory \<Rightarrow> int option" where
  "count this m = map_option (\<lambda>blk. int (length (d_result blk))) (const_data this m)"

definition addValue :: "nat \<Rightarrow> 'v \<Rightarrow> 'v memory \<Rightarrow> 'v memory option" where
  "addValue this v m = mutable_data this (\<lambda>blk. blk\<lparr>d_result := d_result blk @ [v]\<rparr>) m"


definition setNodeId :: "nat \<Rightarrow> string \<Rightarrow> 'v memory \<Rightarrow> 'v memory option" where
  "setNodeId this nid m = mutable_data this (\<lambda>blk. blk\<lparr>d_nodeId := nid\<rparr>) m"

text \<open>
  \<^verbatim>\<open>operator=\<close>: \<^verbatim>\<open>if (this != &rhs) data.operator=(rhs.data)\<close>.
\<close>

definition assign :: "nat \<Rightarrow> nat \<Rightarrow> 'v memory \<Rightarrow> 'v memory option" where
  "assign this rhs m =
     (if this \<noteq> rhs then sdp_assign this rhs m
      else (case dptr m this of None \<Rightarrow> None | Some _ \<Rightarrow> Some m))"

text \<open>A sequence of \<^verbatim>\<open>addValue\<close> calls on one object, in the order of the list.\<close>

fun addValues :: "nat \<Rightarrow> 'v list \<Rightarrow> 'v memory \<Rightarrow> 'v memory option" where
  "addValues this [] m = Some m"
| "addValues this (v # vs) m =
     (case addValue this v m of None \<Rightarrow> None | Some m' \<Rightarrow> addValues this vs m')"




subsection \<open>The reference-counting invariant\<close>

text \<open>
  The objects whose member pointer refers to block \<open>p\<close>, and the invariant that
  \<^verbatim>\<open>QSharedData\<close> maintains: finitely many live objects, every member pointer refers to
  an allocated block, every block is below the allocation mark, and the counter of
  every block is the number of objects that point to it.
\<close>

definition owners :: "(nat \<rightharpoonup> nat) \<Rightarrow> nat \<Rightarrow> nat set" where
  "owners d p = {obj. d obj = Some p}"

definition wf_memory :: "'v memory \<Rightarrow> bool" where
  "wf_memory m \<longleftrightarrow>
     finite (dom (dptr m)) \<and>
     (\<forall>obj p. dptr m obj = Some p \<longrightarrow> p \<in> dom (heap m)) \<and>
     (\<forall>p blk. heap m p = Some blk \<longrightarrow> p < brk m \<and> ref blk = int (card (owners (dptr m) p)))"

text \<open>
  What the \<^verbatim>\<open>const\<close> accessors \<^verbatim>\<open>result()\<close>, \<^verbatim>\<open>statusCode()\<close> and
  \<^verbatim>\<open>nodeId()\<close> show of an object: everything but the counter of its block.
\<close>

definition observable :: "nat \<Rightarrow> 'v memory \<Rightarrow> ('v list \<times> UaStatusCode \<times> string) option" where
  "observable this m =
     map_option (\<lambda>blk. (d_result blk, d_statusCode blk, d_nodeId blk)) (const_data this m)"

text \<open>
  The stores that the member functions build from the empty store.  Constructors run at
  an address where no object lives.
\<close>

inductive reachable :: "'v memory \<Rightarrow> bool" where
  start: "reachable empty_memory"
| constructed:
    "reachable m \<Longrightarrow> dptr m this = None \<Longrightarrow> QOpcUaHistoryData this m = Some m' \<Longrightarrow> reachable m'"
| constructed_nodeId:
    "reachable m \<Longrightarrow> dptr m this = None \<Longrightarrow> QOpcUaHistoryData_nodeId this nid m = Some m' \<Longrightarrow>
     reachable m'"
| copied:
    "reachable m \<Longrightarrow> dptr m this = None \<Longrightarrow> QOpcUaHistoryData_copy this other m = Some m' \<Longrightarrow>
     reachable m'"
| destroyed: "reachable m \<Longrightarrow> QOpcUaHistoryData_dtor this m = Some m' \<Longrightarrow> reachable m'"
| assigned: "reachable m \<Longrightarrow> assign this rhs m = Some m' \<Longrightarrow> reachable m'"
| status_set: "reachable m \<Longrightarrow> setStatusCode this c m = Some m' \<Longrightarrow> reachable m'"
| nodeId_set: "reachable m \<Longrightarrow> setNodeId this nid m = Some m' \<Longrightarrow> reachable m'"
| value_added: "reachable m \<Longrightarrow> addValue this v m = Some m' \<Longrightarrow> reachable m'"
| result_referenced: "reachable m \<Longrightarrow> resultRef this m = Some (r, m') \<Longrightarrow> reachable m'"
| reference_written: "reachable m \<Longrightarrow> ref_write r ys m = Some m' \<Longrightarrow> reachable m'"

subsection \<open>Two sample stores\<close>

text \<open>
  One record at address 5 holding the sample 7; and the same store with a second, empty
  record at address 6.
\<close>

definition one_record :: "nat memory" where
  "one_record =
     \<lparr>heap = [0 \<mapsto> \<lparr>ref = 1, d_result = [7], d_statusCode = Good, d_nodeId = ''ns=2;s=Temp''\<rparr>],
      dptr = [5 \<mapsto> 0], brk = 1\<rparr>"


text \<open>
  The first store after the record at address 5 has been copied to address 9, and that
  store after the list of block 0 has been overwritten with the samples 7 and 8.
\<close>

definition shared_record :: "nat memory" where
  "shared_record =
     \<lparr>heap = [0 \<mapsto> \<lparr>ref = 2, d_result = [7], d_statusCode = Good, d_nodeId = ''ns=2;s=Temp''\<rparr>],
      dptr = [5 \<mapsto> 0, 9 \<mapsto> 0], brk = 1\<rparr>"



section \<open>OpcUaMethodNode (opcuamethodnode.cpp)\<close>

subsection \<open>Types of the collaborators\<close>

text \<open>
  \<^verbatim>\<open>QOpcUa::NodeClass\<close>, the node classes of OPC UA.  The source compares against
  \<^verbatim>\<open>Method\<close>, \<^verbatim>\<open>Object\<close> and \<^verbatim>\<open>ObjectType\<close>; \<open>Undefined\<close> is what
  \<^verbatim>\<open>value<QOpcUa::NodeClass>()\<close> gives for an attribute that has not been read.
\<close>

datatype NodeClass =
  Undefined | Object | Variable | Method | ObjectType | VariableType | ReferenceType
  | DataType | View

text \<open>
  \<^verbatim>\<open>OpcUaNode::Status\<close>.  The source names three failure values; \<open>Valid\<close> stands for
  the state before any of them is set.
\<close>

datatype Status = Valid | InvalidNodeId | InvalidNodeType | InvalidObjectNode

text \<open>
  \<^verbatim>\<open>QVariant\<close>, restricted to the default-constructed (invalid) variant, three scalar
  types and the two list types that \<^verbatim>\<open>canConvert<QVariantList>()\<close> accepts without a
  registered converter.
\<close>

datatype QVariant =
  Invalid
  | VBool bool
  | VInt int
  | VString string
  | VStringList "string list"
  | VList "QVariant list"

fun canConvert_QVariantList :: "QVariant \<Rightarrow> bool" where
  "canConvert_QVariantList (VList xs) = True"
| "canConvert_QVariantList (VStringList ss) = True"
| "canConvert_QVariantList v = False"

fun value_QVariantList :: "QVariant \<Rightarrow> QVariant list" where
  "value_QVariantList (VList xs) = xs"
| "value_QVariantList (VStringList ss) = map VString ss"
| "value_QVariantList v = []"

text \<open>
  \<^verbatim>\<open>QOpcUa::Types\<close>, the wire type tag of an argument (a few of its enumerators; the
  source only passes the tag on).
\<close>

datatype Types = Boolean | Int32 | UInt32 | Double | Float | StringType | UndefinedType

text \<open>\<^verbatim>\<open>OpcUaMethodArgument\<close>: what \<^verbatim>\<open>value()\<close> and \<^verbatim>\<open>type()\<close> return.\<close>

record OpcUaMethodArgument =
  arg_value :: QVariant
  arg_type :: Types

text \<open>\<^verbatim>\<open>QOpcUa::TypedVariant\<close>, a pair of a value and its wire type.\<close>

type_synonym TypedVariant = "QVariant \<times> Types"

text \<open>
  A \<^verbatim>\<open>QOpcUaNode\<close> as the source uses it: its address, \<^verbatim>\<open>nodeId()\<close> and
  \<^verbatim>\<open>attribute(QOpcUa::NodeAttribute::NodeClass).value<QOpcUa::NodeClass>()\<close>.
\<close>

record QOpcUaNode =
  node_ptr :: nat
  node_nodeId :: string
  node_class :: NodeClass

text \<open>
  The \<^verbatim>\<open>OpcUaNode\<close> behind \<^verbatim>\<open>m_objectNode\<close>: its address, the identity object given
  to \<^verbatim>\<open>setNodeId\<close>, and \<^verbatim>\<open>node()\<close>, which is null until the node is resolved.
\<close>

record OpcUaNode =
  obj_ptr :: nat
  obj_nodeId :: "nat option"
  obj_node :: "QOpcUaNode option"

text \<open>
  Signals and slots that the source connects, and a connection
  (sender, signal, receiver, slot).
\<close>

datatype signal = NodeChanged | ReadyToUseChanged | MethodCallFinished

datatype slot = HandleObjectNodeIdChanged | ReadyToUseLambda | HandleMethodCallFinished

type_synonym connection = "nat \<times> signal \<times> nat \<times> slot"

text \<open>The change notifications that the source emits.\<close>

datatype notification =
  ObjectNodeIdChanged
  | ResultStatusCodeChanged UaStatusCode
  | OutputArgumentsChanged

subsection \<open>The state\<close>

text \<open>
  The members of \<^verbatim>\<open>OpcUaMethodNode\<close> (with \<^verbatim>\<open>m_node\<close>, the status and its message
  from the base class \<^verbatim>\<open>OpcUaNode\<close>), followed by what the object does to its host:
  the calls submitted to the server, the notifications emitted (each with the values of
  \<^verbatim>\<open>resultStatusCode()\<close> and \<^verbatim>\<open>outputArguments()\<close> that a slot reads while the signal
  is being emitted), the signal connections, the objects handed to \<^verbatim>\<open>deleteLater\<close>,
  and the address of the next object that \<^verbatim>\<open>new\<close> creates.
\<close>

record OpcUaMethodNode =
  this_ptr :: nat
  m_node :: "QOpcUaNode option"
  m_status :: Status
  m_errorMessage :: string
  m_objectNodeId :: "nat option"
  m_objectNode :: "OpcUaNode option"
  m_inputArguments :: "OpcUaMethodArgument list"
  m_outputArguments :: "QVariant list"
  m_resultStatusCode :: UaStatusCode
  remote_calls :: "(nat \<times> string \<times> TypedVariant list) list"
  notifications :: "(notification \<times> UaStatusCode \<times> QVariant list) list"
  connections :: "connection list"
  deferred_delete :: "nat list"
  next_ptr :: nat

subsection \<open>Collaborators\<close>

text \<open>
  Modelled from the spec: \<^verbatim>\<open>OpcUaNode::setStatus\<close> belongs to the base class, which is
  not among the sources.  Precondition failures "set a local status field", and the
  third failure of \<^verbatim>\<open>checkValidity\<close> carries "a human-readable detail message": the
  status and the message given are stored.  The calls with one argument pass the empty
  message.
\<close>

definition setStatus :: "Status \<Rightarrow> string \<Rightarrow> OpcUaMethodNode \<Rightarrow> OpcUaMethodNode" where
  "setStatus st message s = s\<lparr>m_status := st, m_errorMessage := message\<rparr>"

text \<open>
  Modelled from the spec: \<^verbatim>\<open>QOpcUaNode::callMethod\<close> is the protocol session's
  \<^verbatim>\<open>callMethod(methodNodeId, orderedArguments) -> void\<close>, "fire-and-forget,
  asynchronous": the request is recorded with the node it was submitted on.
\<close>

definition QOpcUaNode_callMethod ::
  "QOpcUaNode \<Rightarrow> string \<Rightarrow> TypedVariant list \<Rightarrow> OpcUaMethodNode \<Rightarrow> OpcUaMethodNode" where
  "QOpcUaNode_callMethod target methodNodeId arguments s =
     s\<lparr>remote_calls := remote_calls s @ [(node_ptr target, methodNodeId, arguments)]\<rparr>"

text \<open>
  \<^verbatim>\<open>emit\<close>: slots connected to a notification run while it is emitted, so the
  notification is recorded with the property values of that moment.
\<close>

definition emit_signal :: "notification \<Rightarrow> OpcUaMethodNode \<Rightarrow> OpcUaMethodNode" where
  "emit_signal n s =
     s\<lparr>notifications := notifications s @ [(n, m_resultStatusCode s, m_outputArguments s)]\<rparr>"

text \<open>
  \<^verbatim>\<open>QObject::connect(sender, signal, receiver, slot, type)\<close>: no connection is made for
  a null sender; with \<^verbatim>\<open>Qt::UniqueConnection\<close> no connection is made when the same one
  exists already.
\<close>

definition connect ::
  "nat option \<Rightarrow> signal \<Rightarrow> nat \<Rightarrow> slot \<Rightarrow> bool \<Rightarrow> OpcUaMethodNode \<Rightarrow> OpcUaMethodNode" where
  "connect sender sig receiver sl unique s =
     (case sender of
        None \<Rightarrow> s
      | Some src \<Rightarrow>
          if unique \<and> (src, sig, receiver, sl) \<in> set (connections s) then s
          else s\<lparr>connections := connections s @ [(src, sig, receiver, sl)]\<rparr>)"

text \<open>
  \<^verbatim>\<open>disconnect(m_objectNodeId)\<close> inside a member function is the overload
  \<^verbatim>\<open>bool QObject::disconnect(const QObject *receiver, const char *method = nullptr) const\<close>,
  that is \<^verbatim>\<open>disconnect(this, nullptr, receiver, nullptr)\<close>: it removes every connection
  from a signal of this object to the given receiver.
\<close>

definition disconnect :: "nat \<Rightarrow> OpcUaMethodNode \<Rightarrow> OpcUaMethodNode" where
  "disconnect receiver s =
     s\<lparr>connections :=
         filter (\<lambda>(src, sig, rcv, sl). \<not> (src = this_ptr s \<and> rcv = receiver)) (connections s)\<rparr>"

text \<open>
  \<^verbatim>\<open>deleteLater()\<close> queues the object for deletion by the event loop; nothing is
  queued for a null pointer.  When the event loop deletes the queued objects, every
  connection they take part in goes with them.
\<close>

definition deleteLater :: "nat option \<Rightarrow> OpcUaMethodNode \<Rightarrow> OpcUaMethodNode" where
  "deleteLater obj s =
     (case obj of None \<Rightarrow> s | Some p \<Rightarrow> s\<lparr>deferred_delete := deferred_delete s @ [p]\<rparr>)"

definition deferred_delete_event :: "OpcUaMethodNode \<Rightarrow> OpcUaMethodNode" where
  "deferred_delete_event s =
     s\<lparr>connections :=
         filter (\<lambda>(src, sig, rcv, sl). src \<notin> set (deferred_delete s) \<and> rcv \<notin> set (deferred_delete s))
           (connections s),
       deferred_delete := []\<rparr>"

subsection \<open>The member functions\<close>

text \<open>
  The loop of \<^verbatim>\<open>callMethod\<close>:
  \<^verbatim>\<open>for (const auto item : qAsConst(m_inputArguments)) arguments.push_back(...)\<close>.
\<close>

fun push_arguments :: "OpcUaMethodArgument list \<Rightarrow> TypedVariant list \<Rightarrow> TypedVariant list" where
  "push_arguments [] arguments = arguments"
| "push_arguments (item # items) arguments =
     push_arguments items (arguments @ [(arg_value item, arg_type item)])"

definition callMethod :: "OpcUaMethodNode \<Rightarrow> OpcUaMethodNode" where
  "callMethod s =
     (case m_objectNode s of
        None \<Rightarrow> setStatus InvalidObjectNode [] s
      | Some objectNode \<Rightarrow>
          (case obj_node objectNode of
             None \<Rightarrow> setStatus InvalidObjectNode [] s
           | Some target \<Rightarrow>
               (case m_node s of
                  None \<Rightarrow> setStatus InvalidNodeId [] s
                | Some node \<Rightarrow>
                    QOpcUaNode_callMethod target (node_nodeId node)
                      (push_arguments (m_inputArguments s) []) s)))"

text \<open>
  The lambda connected to \<^verbatim>\<open>readyToUseChanged\<close>: it connects
  \<^verbatim>\<open>methodCallFinished\<close> of \<^verbatim>\<open>m_objectNode->node()\<close> to the completion handler with
  \<^verbatim>\<open>Qt::UniqueConnection\<close>.
\<close>

definition readyToUseLambda :: "OpcUaMethodNode \<Rightarrow> OpcUaMethodNode" where
  "readyToUseLambda s =
     connect
       (case m_objectNode s of None \<Rightarrow> None | Some objectNode \<Rightarrow> map_option node_ptr (obj_node objectNode))
       MethodCallFinished (this_ptr s) HandleMethodCallFinished True s"

text \<open>
  Modelled from the spec: the constructor of \<^verbatim>\<open>OpcUaNode\<close> and \<^verbatim>\<open>OpcUaNode::setNodeId\<close>
  belong to the base class, which is not among the sources.  The object node identity
  change "creates a fresh Node Resolution bound to the new identity", and "resolution is
  asynchronous": the new object gets a fresh address, has no identity and no resolved
  node; \<^verbatim>\<open>setNodeId\<close> binds it to the identity given.
\<close>

definition new_OpcUaNode :: "OpcUaMethodNode \<Rightarrow> OpcUaNode \<times> OpcUaMethodNode" where
  "new_OpcUaNode s =
     (\<lparr>obj_ptr = next_ptr s, obj_nodeId = None, obj_node = None\<rparr>, s\<lparr>next_ptr := Suc (next_ptr s)\<rparr>)"

definition OpcUaNode_setNodeId :: "nat option \<Rightarrow> OpcUaNode \<Rightarrow> OpcUaNode" where
  "OpcUaNode_setNodeId nodeIdType objectNode = objectNode\<lparr>obj_nodeId := nodeIdType\<rparr>"

definition handleObjectNodeIdChanged :: "OpcUaMethodNode \<Rightarrow> OpcUaMethodNode" where
  "handleObjectNodeIdChanged s =
     (let s1 = deleteLater (map_option obj_ptr (m_objectNode s)) s;
          (created, s1') = new_OpcUaNode s1;
          s2 = s1'\<lparr>m_objectNode := Some created\<rparr>;
          s3 = s2\<lparr>m_objectNode := map_option (OpcUaNode_setNodeId (m_objectNodeId s2)) (m_objectNode s2)\<rparr>;
          s4 = connect (map_option obj_ptr (m_objectNode s3)) ReadyToUseChanged (this_ptr s3)
                 ReadyToUseLambda False s3
      in emit_signal ObjectNodeIdChanged s4)"

definition setObjectNodeId :: "nat option \<Rightarrow> OpcUaMethodNode \<Rightarrow> OpcUaMethodNode" where
  "setObjectNodeId node s =
     (let s1 = (case m_objectNodeId s of None \<Rightarrow> s | Some old \<Rightarrow> disconnect old s);
          s2 = s1\<lparr>m_objectNodeId := node\<rparr>;
          s3 = connect (m_objectNodeId s2) NodeChanged (this_ptr s2) HandleObjectNodeIdChanged False s2
      in handleObjectNodeIdChanged s3)"

definition handleMethodCallFinished ::
  "string \<Rightarrow> QVariant \<Rightarrow> UaStatusCode \<Rightarrow> OpcUaMethodNode \<Rightarrow> OpcUaMethodNode" where
  "handleMethodCallFinished methodNodeId res code s =
     (let s1 = s\<lparr>m_resultStatusCode := code\<rparr>;
          s2 = s1\<lparr>m_outputArguments := []\<rparr>;
          s3 = (if canConvert_QVariantList res
                then s2\<lparr>m_outputArguments := value_QVariantList res\<rparr>
                else s2\<lparr>m_outputArguments := m_outputArguments s2 @ [res]\<rparr>);
          s4 = emit_signal (ResultStatusCodeChanged (m_resultStatusCode s3)) s3
      in emit_signal OutputArgumentsChanged s4)"

text \<open>
  \<^verbatim>\<open>checkValidity\<close> dereferences \<^verbatim>\<open>m_node\<close> in its first statement; a null
  \<^verbatim>\<open>m_node\<close> is the fault \<open>NullPointerDereference\<close>.  The message is the source text
  given to \<^verbatim>\<open>tr()\<close>.
\<close>

datatype fault = NullPointerDereference

definition object_node_message :: string where
  "object_node_message = ''Object node is not of type `Object' or `ObjectType'' @ [CHR 0x27]"

definition checkValidity :: "OpcUaMethodNode \<Rightarrow> fault + (bool \<times> OpcUaMethodNode)" where
  "checkValidity s =
     (case m_node s of
        None \<Rightarrow> Inl NullPointerDereference
      | Some node \<Rightarrow>
          if node_class node \<noteq> Method then Inr (False, setStatus InvalidNodeType [] s)
          else
            (case m_objectNode s of
               None \<Rightarrow> Inr (False, setStatus InvalidObjectNode [] s)
             | Some objectNode \<Rightarrow>
                 (case obj_node objectNode of
                    None \<Rightarrow> Inr (False, setStatus InvalidObjectNode [] s)
                  | Some target \<Rightarrow>
                      let objectNodeClass = node_class target
                      in if objectNodeClass \<noteq> Object \<and> objectNodeClass \<noteq> ObjectType
                         then Inr (False, setStatus InvalidObjectNode object_node_message s)
                         else Inr (True, s))))"

subsection \<open>Signal delivery\<close>

text \<open>
  A signal of \<open>sender\<close> reaches the slots of this object connected to it, in the order
  the connections were made.  The three arguments are those of
  \<^verbatim>\<open>methodCallFinished\<close>; the other slots take none.
\<close>

fun invoke :: "slot \<Rightarrow> string \<times> QVariant \<times> UaStatusCode \<Rightarrow> OpcUaMethodNode \<Rightarrow> OpcUaMethodNode" where
  "invoke HandleObjectNodeIdChanged args s = handleObjectNodeIdChanged s"
| "invoke ReadyToUseLambda args s = readyToUseLambda s"
| "invoke HandleMethodCallFinished (methodNodeId, res, code) s =
     handleMethodCallFinished methodNodeId res code s"

definition slots_of :: "nat \<Rightarrow> signal \<Rightarrow> OpcUaMethodNode \<Rightarrow> slot list" where
  "slots_of sender sig s =
     map (\<lambda>(src, sg, rcv, sl). sl)
       (filter (\<lambda>(src, sg, rcv, sl). src = sender \<and> sg = sig \<and> rcv = this_ptr s) (connections s))"

definition signal_emitted ::
  "nat \<Rightarrow> signal \<Rightarrow> string \<times> QVariant \<times> UaStatusCode \<Rightarrow> OpcUaMethodNode \<Rightarrow> OpcUaMethodNode" where
  "signal_emitted sender sig args s = fold (\<lambda>sl. invoke sl args) (slots_of sender sig s) s"

text \<open>
  A sequence of completion events, delivered to the completion handler one after the
  other.
\<close>

fun completions :: "(string \<times> QVariant \<times> UaStatusCode) list \<Rightarrow> OpcUaMethodNode \<Rightarrow> OpcUaMethodNode" where
  "completions [] s = s"
| "completions ((methodNodeId, res, code) # events) s =
     completions events (handleMethodCallFinished methodNodeId res code s)"

subsection \<open>The resolved object node\<close>

text \<open>
  What \<^verbatim>\<open>m_objectNode->node()\<close> yields, with both null checks of the source in front:
  \<open>None\<close> when the object node is missing or unresolved.
\<close>

definition resolved_object_node :: "OpcUaMethodNode \<Rightarrow> QOpcUaNode option" where
  "resolved_object_node s =
     (case m_objectNode s of None \<Rightarrow> None | Some objectNode \<Rightarrow> obj_node objectNode)"

subsection \<open>Sample states\<close>

text \<open>
  A method node at address 100 right after construction: nothing set, nothing resolved,
  the last result code \<open>Good\<close>.
\<close>

definition fresh_node :: OpcUaMethodNode where
  "fresh_node =
     \<lparr>this_ptr = 100, m_node = None, m_status = Valid, m_errorMessage = [],
      m_objectNodeId = None, m_objectNode = None, m_inputArguments = [],
      m_outputArguments = [], m_resultStatusCode = Good, remote_calls = [],
      notifications = [], connections = [], deferred_delete = [], next_ptr = 200\<rparr>"

text \<open>
  The method node \<^verbatim>\<open>s=Example.Method\<close> and the object node \<^verbatim>\<open>s=Example.Object\<close> of
  the example in the documentation of the source, and a variable node.
\<close>

definition example_method :: QOpcUaNode where
  "example_method = \<lparr>node_ptr = 300, node_nodeId = ''ns=2;s=Example.Method'', node_class = Method\<rparr>"

definition example_object :: QOpcUaNode where
  "example_object = \<lparr>node_ptr = 301, node_nodeId = ''ns=2;s=Example.Object'', node_class = Object\<rparr>"

definition example_variable :: QOpcUaNode where
  "example_variable = \<lparr>node_ptr = 302, node_nodeId = ''ns=2;s=Example.Variable'', node_class = Variable\<rparr>"

text \<open>A method node whose object node resolved to the given node.\<close>

definition with_object :: "QOpcUaNode \<Rightarrow> OpcUaMethodNode \<Rightarrow> OpcUaMethodNode" where
  "with_object target s =
     s\<lparr>m_objectNodeId := Some 1,
       m_objectNode := Some \<lparr>obj_ptr = 150, obj_nodeId = Some 1, obj_node = Some target\<rparr>\<rparr>"

text \<open>The two \<^verbatim>\<open>Double\<close> arguments 3 and 4 of the documentation's example.\<close>

definition example_arguments :: "OpcUaMethodArgument list" where
  "example_arguments =
     [\<lparr>arg_value = VInt 3, arg_type = Double\<rparr>, \<lparr>arg_value = VInt 4, arg_type = Double\<rparr>]"


section \<open>Properties of QOpcUaHistoryData\<close>

subsection \<open>The invariant and its parts\<close>

lemma wf_memoryI:
  assumes "finite (dom (dptr m))"
    and "\<And>obj p. dptr m obj = Some p \<Longrightarrow> \<exists>blk. heap m p = Some blk"
    and "\<And>p blk. heap m p = Some blk \<Longrightarrow> p < brk m"
    and "\<And>p blk. heap m p = Some blk \<Longrightarrow> ref blk = int (card (owners (dptr m) p))"
  shows "wf_memory m"
  using assms unfolding wf_memory_def by (auto simp: dom_def)

lemma wf_finite: "wf_memory m \<Longrightarrow> finite (dom (dptr m))"
  by (simp add: wf_memory_def)

lemma wf_alloc: "wf_memory m \<Longrightarrow> dptr m obj = Some p \<Longrightarrow> \<exists>blk. heap m p = Some blk"
  by (auto simp: wf_memory_def dom_def)

lemma wf_below: "wf_memory m \<Longrightarrow> heap m p = Some blk \<Longrightarrow> p < brk m"
  by (simp add: wf_memory_def)

lemma wf_ref: "wf_memory m \<Longrightarrow> heap m p = Some blk \<Longrightarrow> ref blk = int (card (owners (dptr m) p))"
  by (simp add: wf_memory_def)

subsection \<open>Owners of a block\<close>

lemma finite_owners: "finite (dom d) \<Longrightarrow> finite (owners d p)"
  by (rule finite_subset[of _ "dom d"]) (auto simp: owners_def)

lemma owners_upd:
  "owners (d(obj \<mapsto> q)) p = (if p = q then insert obj (owners d p) else owners d p - {obj})"
  by (auto simp: owners_def)

lemma owners_del: "owners (d(obj := None)) p = owners d p - {obj}"
  by (auto simp: owners_def)

lemma owners_mem: "obj \<in> owners d p \<longleftrightarrow> d obj = Some p"
  by (simp add: owners_def)

subsection \<open>The invariant is kept\<close>

lemma wf_memory_empty: "wf_memory empty_memory"
  by (simp add: wf_memory_def empty_memory_def)

lemma owners_fresh: "wf_memory m \<Longrightarrow> brk m \<le> p \<Longrightarrow> owners (dptr m) p = {}"
proof -
  assume w: "wf_memory m" and le: "brk m \<le> p"
  { fix obj assume "dptr m obj = Some p"
    then obtain blk where "heap m p = Some blk" using w wf_alloc by blast
    then have "p < brk m" using w wf_below by blast
    with le have False by simp }
  then show ?thesis by (auto simp: owners_def)
qed

lemma wf_new_data:
  assumes w: "wf_memory m" and fresh: "dptr m this = None"
  shows "wf_memory (new_data this m)"
proof (rule wf_memoryI)
  show "finite (dom (dptr (new_data this m)))"
    using wf_finite[OF w] by (simp add: new_data_def)
next
  fix obj p assume "dptr (new_data this m) obj = Some p"
  then show "\<exists>blk. heap (new_data this m) p = Some blk"
    using wf_alloc[OF w] by (auto simp: new_data_def split: if_splits)
next
  fix p blk assume "heap (new_data this m) p = Some blk"
  then show "p < brk (new_data this m)"
    using wf_below[OF w] by (auto simp: new_data_def less_Suc_eq split: if_splits)
next
  fix p blk assume h: "heap (new_data this m) p = Some blk"
  have e: "owners (dptr m) (brk m) = {}" using w by (simp add: owners_fresh)
  have n: "this \<notin> owners (dptr m) p" using fresh by (simp add: owners_mem)
  show "ref blk = int (card (owners (dptr (new_data this m)) p))"
  proof (cases "p = brk m")
    case True
    with h e show ?thesis by (auto simp: new_data_def owners_upd)
  next
    case False
    with h have "heap m p = Some blk" by (simp add: new_data_def)
    then have "ref blk = int (card (owners (dptr m) p))" using w wf_ref by blast
    with False n show ?thesis by (simp add: new_data_def owners_upd)
  qed
qed

lemma wf_heap_touch:
  assumes "wf_memory m" "heap m p = Some blk" "ref blk' = ref blk"
  shows "wf_memory (m\<lparr>heap := (heap m)(p \<mapsto> blk')\<rparr>)"
  using assms unfolding wf_memory_def by (auto simp: dom_def)

lemma int_card_remove: "finite S \<Longrightarrow> x \<in> S \<Longrightarrow> int (card (S - {x})) = int (card S) - 1"
  using card_Suc_Diff1[of S x] by simp

lemma int_card_insert: "finite S \<Longrightarrow> x \<notin> S \<Longrightarrow> int (card (insert x S)) = int (card S) + 1"
  by simp

lemma card_owner_in: "wf_memory m \<Longrightarrow> dptr m obj = Some p \<Longrightarrow> card (owners (dptr m) p) \<ge> 1"
proof -
  assume w: "wf_memory m" and d: "dptr m obj = Some p"
  have "finite (owners (dptr m) p)" using wf_finite[OF w] by (rule finite_owners)
  moreover have "obj \<in> owners (dptr m) p" using d by (simp add: owners_mem)
  ultimately show ?thesis by (metis One_nat_def Suc_leI card_gt_0_iff empty_iff)
qed

lemma wf_detach:
  assumes w: "wf_memory m" and d: "detach this m = Some m'"
  shows "wf_memory m'"
proof -
  from d obtain p blk where dp: "dptr m this = Some p" and hp: "heap m p = Some blk"
    by (auto simp: detach_def split: option.splits)
  show ?thesis
  proof (cases "ref blk = 1")
    case True
    with d dp hp w show ?thesis by (simp add: detach_def)
  next
    case False
    let ?x = "brk m"
    have fin: "finite (dom (dptr m))" by (rule wf_finite[OF w])
    have finp: "\<And>q. finite (owners (dptr m) q)" using fin by (rule finite_owners)
    have refp: "ref blk = int (card (owners (dptr m) p))" using w hp by (rule wf_ref)
    have inp: "this \<in> owners (dptr m) p" using dp by (simp add: owners_mem)
    have px: "p < ?x" using w hp by (rule wf_below)
    have ex: "owners (dptr m) ?x = {}" using w by (simp add: owners_fresh)
    have cardp: "int (card (owners (dptr m) p - {this})) = ref blk - 1"
      using int_card_remove[OF finp[of p] inp] refp by linarith
    have m'_dptr: "dptr m' = (dptr m)(this \<mapsto> ?x)" and m'_brk: "brk m' = Suc ?x"
      and m'_heap: "heap m' = (if ref blk - 1 = 0 then ((heap m)(?x \<mapsto> blk\<lparr>ref := 1\<rparr>))(p := None)
                               else ((heap m)(?x \<mapsto> blk\<lparr>ref := 1\<rparr>))(p \<mapsto> blk\<lparr>ref := ref blk - 1\<rparr>))"
      using d dp hp False by (auto simp: detach_def Let_def)
    show ?thesis
    proof (rule wf_memoryI)
      show "finite (dom (dptr m'))" using fin by (simp add: m'_dptr)
    next
      fix obj q assume a: "dptr m' obj = Some q"
      show "\<exists>b. heap m' q = Some b"
      proof (cases "obj = this")
        case True
        with a have "q = ?x" by (simp add: m'_dptr)
        with px show ?thesis by (simp add: m'_heap)
      next
        case False
        with a have dq: "dptr m obj = Some q" by (simp add: m'_dptr)
        then obtain b where hq: "heap m q = Some b" using w wf_alloc by blast
        show ?thesis
        proof (cases "q = p")
          case True
          have "obj \<in> owners (dptr m) p - {this}" using dq True False by (simp add: owners_mem)
          then have "card (owners (dptr m) p - {this}) \<noteq> 0" using finp[of p] by auto
          then have "ref blk - 1 \<noteq> 0" using cardp by linarith
          with True show ?thesis by (simp add: m'_heap)
        next
          case False
          with hq show ?thesis by (auto simp: m'_heap)
        qed
      qed
    next
      fix q b assume "heap m' q = Some b"
      then show "q < brk m'"
        using wf_below[OF w] px by (auto simp: m'_heap m'_brk less_Suc_eq split: if_splits)
    next
      fix q b assume h: "heap m' q = Some b"
      show "ref b = int (card (owners (dptr m') q))"
      proof (cases "q = ?x")
        case True
        with h px have "ref b = 1" by (auto simp: m'_heap split: if_splits)
        with True ex show ?thesis by (simp add: m'_dptr owners_upd)
      next
        case nx: False
        show ?thesis
        proof (cases "q = p")
          case True
          with h nx have "ref b = ref blk - 1" by (auto simp: m'_heap split: if_splits)
          with True nx cardp px show ?thesis by (simp add: m'_dptr owners_upd)
        next
          case False
          with h nx have hq: "heap m q = Some b" by (auto simp: m'_heap split: if_splits)
          have "this \<notin> owners (dptr m) q" using dp False by (simp add: owners_mem)
          with nx wf_ref[OF w hq] show ?thesis by (simp add: m'_dptr owners_upd)
        qed
      qed
    qed
  qed
qed


text \<open>
  Detaching a live object leaves it the sole owner of a block with the old contents;
  the other objects keep their pointers and see the same contents.
\<close>

lemma detach_live:
  assumes w: "wf_memory m" and dp: "dptr m this = Some p" and hp: "heap m p = Some blk"
  shows "\<exists>m' q. detach this m = Some m' \<and> dptr m' this = Some q \<and>
           heap m' q = Some (blk\<lparr>ref := 1\<rparr>) \<and>
           (\<forall>obj. obj \<noteq> this \<longrightarrow> dptr m' obj = dptr m obj \<and> const_data obj m' = map_option (\<lambda>b. if dptr m obj = Some p \<and> ref blk \<noteq> 1 then b\<lparr>ref := ref blk - 1\<rparr> else b) (const_data obj m))"
proof (cases "ref blk = 1")
  case True
  then have "detach this m = Some m" using dp hp by (simp add: detach_def)
  moreover have "blk\<lparr>ref := 1\<rparr> = blk" using True by simp
  ultimately show ?thesis using dp hp True
    by (auto simp: const_data_def option.map_ident split: option.splits)
next
  case False
  have px: "p < brk m" using w hp by (rule wf_below)
  have fin: "finite (owners (dptr m) p)" using wf_finite[OF w] by (rule finite_owners)
  have inp: "this \<in> owners (dptr m) p" using dp by (simp add: owners_mem)
  have refp: "ref blk = int (card (owners (dptr m) p))" using w hp by (rule wf_ref)
  have cardp: "int (card (owners (dptr m) p - {this})) = ref blk - 1"
    using int_card_remove[OF fin inp] refp by linarith
  let ?h1 = "(heap m)(brk m \<mapsto> blk\<lparr>ref := 1\<rparr>)"
  let ?h2 = "if ref blk - 1 = 0 then ?h1(p := None) else ?h1(p \<mapsto> blk\<lparr>ref := ref blk - 1\<rparr>)"
  let ?m' = "m\<lparr>heap := ?h2, dptr := (dptr m)(this \<mapsto> brk m), brk := Suc (brk m)\<rparr>"
  have d: "detach this m = Some ?m'" using dp hp False by (simp add: detach_def Let_def)
  have a: "dptr ?m' this = Some (brk m)" by simp
  have b: "heap ?m' (brk m) = Some (blk\<lparr>ref := 1\<rparr>)" using px by simp
  have c: "\<forall>obj. obj \<noteq> this \<longrightarrow> dptr ?m' obj = dptr m obj \<and> const_data obj ?m' = map_option (\<lambda>b. if dptr m obj = Some p \<and> ref blk \<noteq> 1 then b\<lparr>ref := ref blk - 1\<rparr> else b) (const_data obj m)"
  proof (intro allI impI conjI)
    fix obj assume ne: "obj \<noteq> this"
    then show "dptr ?m' obj = dptr m obj" by simp
    show "const_data obj ?m' = map_option (\<lambda>b. if dptr m obj = Some p \<and> ref blk \<noteq> 1 then b\<lparr>ref := ref blk - 1\<rparr> else b) (const_data obj m)"
    proof (cases "dptr m obj")
      case None
      with ne show ?thesis by (simp add: const_data_def)
    next
      case (Some q)
      then obtain bq where hq: "heap m q = Some bq" using w wf_alloc by blast
      then have qx: "q < brk m" using w wf_below by blast
      show ?thesis
      proof (cases "q = p")
        case True
        have "obj \<in> owners (dptr m) p - {this}" using Some True ne by (simp add: owners_mem)
        then have "card (owners (dptr m) p - {this}) \<noteq> 0" using fin by auto
        then have "ref blk - 1 \<noteq> 0" using cardp by linarith
        with True Some ne hp px False show ?thesis by (simp add: const_data_def)
      next
        case False
        with Some ne hq qx show ?thesis by (simp add: const_data_def)
      qed
    qed
  qed
  show ?thesis using d a b c by blast
qed


lemma sole_owner:
  assumes w: "wf_memory m" and dp: "dptr m this = Some p" and hp: "heap m p = Some blk"
    and r: "ref blk = 1" and o: "dptr m obj = Some p"
  shows "obj = this"
proof -
  have fin: "finite (owners (dptr m) p)" using wf_finite[OF w] by (rule finite_owners)
  have "card (owners (dptr m) p) = 1" using wf_ref[OF w hp] r by simp
  then obtain z where z: "owners (dptr m) p = {z}" by (auto simp: card_1_singleton_iff)
  have "this \<in> owners (dptr m) p" "obj \<in> owners (dptr m) p" using dp o by (simp_all add: owners_mem)
  with z show ?thesis by simp
qed

lemma mutable_data_effect:
  assumes w: "wf_memory m" and c: "const_data this m = Some blk"
    and f: "\<And>b. ref (f b) = ref b"
  shows "\<exists>m'. mutable_data this f m = Some m' \<and> wf_memory m' \<and>
           const_data this m' = Some (f (blk\<lparr>ref := 1\<rparr>)) \<and>
           (\<forall>obj. obj \<noteq> this \<longrightarrow> observable obj m' = observable obj m)"
proof -
  from c obtain p where dp: "dptr m this = Some p" and hp: "heap m p = Some blk"
    by (auto simp: const_data_def split: option.splits)
  from detach_live[OF w dp hp] obtain m1 q where
    d: "detach this m = Some m1" and dq: "dptr m1 this = Some q"
    and hq: "heap m1 q = Some (blk\<lparr>ref := 1\<rparr>)"
    and oth: "\<And>obj. obj \<noteq> this \<Longrightarrow> dptr m1 obj = dptr m obj \<and> const_data obj m1 = map_option (\<lambda>b. if dptr m obj = Some p \<and> ref blk \<noteq> 1 then b\<lparr>ref := ref blk - 1\<rparr> else b) (const_data obj m)"
    by blast
  have w1: "wf_memory m1" using w d by (rule wf_detach)
  let ?m' = "m1\<lparr>heap := (heap m1)(q \<mapsto> f (blk\<lparr>ref := 1\<rparr>))\<rparr>"
  have md: "mutable_data this f m = Some ?m'" using d dq hq by (simp add: mutable_data_def)
  have w': "wf_memory ?m'" using w1 hq by (rule wf_heap_touch) (simp add: f)
  have me: "const_data this ?m' = Some (f (blk\<lparr>ref := 1\<rparr>))" using dq by (simp add: const_data_def)
  have others: "\<forall>obj. obj \<noteq> this \<longrightarrow> observable obj ?m' = observable obj m"
  proof (intro allI impI)
    fix obj assume ne: "obj \<noteq> this"
    have nq: "dptr m1 obj \<noteq> Some q"
    proof
      assume "dptr m1 obj = Some q"
      then have "obj = this" using sole_owner[OF w1 dq hq] by simp
      with ne show False by simp
    qed
    then have "const_data obj ?m' = const_data obj m1"
      by (auto simp: const_data_def split: option.splits)
    then have "observable obj ?m' = observable obj m1" by (simp add: observable_def)
    also have "\<dots> = observable obj m"
      using oth[OF ne] by (cases "const_data obj m") (simp_all add: observable_def)
    finally show "observable obj ?m' = observable obj m" .
  qed
  show ?thesis using md w' me others by blast
qed

lemma addValue_effect:
  assumes w: "wf_memory m" and c: "const_data this m = Some blk"
  shows "\<exists>m'. addValue this v m = Some m' \<and> wf_memory m' \<and>
           observable this m' = Some (d_result blk @ [v], d_statusCode blk, d_nodeId blk) \<and>
           (\<forall>obj. obj \<noteq> this \<longrightarrow> observable obj m' = observable obj m)"
proof -
  from mutable_data_effect[OF w c, of "\<lambda>blk. blk\<lparr>d_result := d_result blk @ [v]\<rparr>"]
  obtain m' where "mutable_data this (\<lambda>blk. blk\<lparr>d_result := d_result blk @ [v]\<rparr>) m = Some m'"
    "wf_memory m'" "const_data this m' = Some ((blk\<lparr>ref := 1\<rparr>)\<lparr>d_result := d_result (blk\<lparr>ref := 1\<rparr>) @ [v]\<rparr>)"
    "\<forall>obj. obj \<noteq> this \<longrightarrow> observable obj m' = observable obj m"
    by auto
  then show ?thesis by (simp add: addValue_def observable_def)
qed

lemma addValues_effect:
  assumes "wf_memory m" and "observable this m = Some (xs, c, n)"
  shows "\<exists>m'. addValues this vs m = Some m' \<and> wf_memory m' \<and>
           observable this m' = Some (xs @ vs, c, n) \<and>
           (\<forall>obj. obj \<noteq> this \<longrightarrow> observable obj m' = observable obj m)"
  using assms
proof (induction vs arbitrary: m xs)
  case Nil
  then show ?case by simp
next
  case (Cons v vs)
  from Cons.prems(2) obtain blk where c: "const_data this m = Some blk"
    and b: "d_result blk = xs" "d_statusCode blk = c" "d_nodeId blk = n"
    by (auto simp: observable_def)
  from addValue_effect[OF Cons.prems(1) c, of v] obtain m1 where
    a: "addValue this v m = Some m1" and w1: "wf_memory m1"
    and o1: "observable this m1 = Some (xs @ [v], c, n)"
    and r1: "\<forall>obj. obj \<noteq> this \<longrightarrow> observable obj m1 = observable obj m"
    using b by auto
  from Cons.IH[OF w1 o1] obtain m' where
    "addValues this vs m1 = Some m'" "wf_memory m'"
    "observable this m' = Some ((xs @ [v]) @ vs, c, n)"
    "\<forall>obj. obj \<noteq> this \<longrightarrow> observable obj m' = observable obj m1"
    by blast
  with a r1 show ?case by simp
qed


subsection \<open>Constructors, copies and assignment\<close>

lemma ctor_effect:
  assumes w: "wf_memory m" and fresh: "dptr m this = None"
  shows "\<exists>m'. QOpcUaHistoryData this m = Some m' \<and> wf_memory m' \<and>
           observable this m' = Some ([], Good, []) \<and>
           (\<forall>obj. obj \<noteq> this \<longrightarrow> observable obj m' = observable obj m)"
proof -
  let ?m0 = "new_data this m"
  have w0: "wf_memory ?m0" using w fresh by (rule wf_new_data)
  have c0: "const_data this ?m0 = Some \<lparr>ref = 1, d_result = [], d_statusCode = Good, d_nodeId = []\<rparr>"
    by (simp add: const_data_def new_data_def)
  have o0: "\<And>obj. obj \<noteq> this \<Longrightarrow> observable obj ?m0 = observable obj m"
  proof -
    fix obj assume ne: "obj \<noteq> this"
    show "observable obj ?m0 = observable obj m"
    proof (cases "dptr m obj")
      case None
      with ne show ?thesis by (simp add: observable_def const_data_def new_data_def)
    next
      case (Some q)
      then obtain bq where "heap m q = Some bq" using w wf_alloc by blast
      then have "q < brk m" using w wf_below by blast
      with Some ne show ?thesis by (simp add: observable_def const_data_def new_data_def)
    qed
  qed
  from mutable_data_effect[OF w0 c0, of "\<lambda>blk. blk\<lparr>d_statusCode := Good\<rparr>"]
  obtain m' where "mutable_data this (\<lambda>blk. blk\<lparr>d_statusCode := Good\<rparr>) ?m0 = Some m'"
    "wf_memory m'"
    "const_data this m' = Some \<lparr>ref = 1, d_result = [], d_statusCode = Good, d_nodeId = []\<rparr>"
    "\<forall>obj. obj \<noteq> this \<longrightarrow> observable obj m' = observable obj ?m0"
    by auto
  then show ?thesis using o0 by (simp add: QOpcUaHistoryData_def observable_def)
qed

lemma ctor_nodeId_effect:
  assumes w: "wf_memory m" and fresh: "dptr m this = None"
  shows "\<exists>m'. QOpcUaHistoryData_nodeId this nid m = Some m' \<and> wf_memory m' \<and>
           observable this m' = Some ([], Good, nid) \<and>
           (\<forall>obj. obj \<noteq> this \<longrightarrow> observable obj m' = observable obj m)"
proof -
  from ctor_effect[OF w fresh] obtain m1 where
    a: "mutable_data this (\<lambda>blk. blk\<lparr>d_statusCode := Good\<rparr>) (new_data this m) = Some m1"
    and w1: "wf_memory m1" and o1: "observable this m1 = Some ([], Good, [])"
    and r1: "\<forall>obj. obj \<noteq> this \<longrightarrow> observable obj m1 = observable obj m"
    by (auto simp: QOpcUaHistoryData_def)
  from o1 obtain blk where c1: "const_data this m1 = Some blk"
    and b: "d_result blk = []" "d_statusCode blk = Good"
    by (auto simp: observable_def)
  from mutable_data_effect[OF w1 c1, of "\<lambda>blk. blk\<lparr>d_nodeId := nid\<rparr>"]
  obtain m' where "mutable_data this (\<lambda>blk. blk\<lparr>d_nodeId := nid\<rparr>) m1 = Some m'"
    "wf_memory m'"
    "const_data this m' = Some (blk\<lparr>ref := 1, d_nodeId := nid\<rparr>)"
    "\<forall>obj. obj \<noteq> this \<longrightarrow> observable obj m' = observable obj m1"
    by auto
  then show ?thesis using a r1 b by (simp add: QOpcUaHistoryData_nodeId_def observable_def)
qed

text \<open>
  Redirecting the pointer of \<open>this\<close> to the block \<open>p\<close> of another object, for both ways
  the source does it: from no block (copy construction) and from an old block, whose
  reference is dropped (assignment).
\<close>

lemma share_effect:
  assumes w: "wf_memory m" and nt: "dptr m this \<noteq> Some p"
    and hp: "heap m p = Some blk"
    and old: "\<And>q. dptr m this = Some q \<Longrightarrow> h' = (heap (deref q (m\<lparr>heap := (heap m)(p \<mapsto> blk\<lparr>ref := ref blk + 1\<rparr>)\<rparr>)))"
    and new: "dptr m this = None \<Longrightarrow> h' = (heap m)(p \<mapsto> blk\<lparr>ref := ref blk + 1\<rparr>)"
  shows "wf_memory (m\<lparr>heap := h', dptr := (dptr m)(this \<mapsto> p)\<rparr>) \<and>
         (\<forall>obj. dptr m obj \<noteq> None \<longrightarrow> obj \<noteq> this \<longrightarrow>
            map_option (\<lambda>b. (d_result b, d_statusCode b, d_nodeId b)) (case dptr m obj of None \<Rightarrow> None | Some q \<Rightarrow> h' q)
            = observable obj m) \<and>
         map_option (\<lambda>b. (d_result b, d_statusCode b, d_nodeId b)) (h' p)
            = Some (d_result blk, d_statusCode blk, d_nodeId blk)"
proof -
  let ?m' = "m\<lparr>heap := h', dptr := (dptr m)(this \<mapsto> p)\<rparr>"
  have fin: "finite (dom (dptr m))" by (rule wf_finite[OF w])
  have finp: "\<And>q. finite (owners (dptr m) q)" using fin by (rule finite_owners)
  have notp: "this \<notin> owners (dptr m) p" using nt by (simp add: owners_mem)
  have refp: "ref blk = int (card (owners (dptr m) p))" using w hp by (rule wf_ref)
  have px: "p < brk m" using w hp by (rule wf_below)
  have h'p: "h' p = Some (blk\<lparr>ref := ref blk + 1\<rparr>)"
  proof (cases "dptr m this")
    case None
    then show ?thesis using new by simp
  next
    case (Some q)
    with nt have "q \<noteq> p" by auto
    then show ?thesis using old[OF Some] by (auto simp: deref_def split: option.splits)
  qed
  have h'other: "\<And>q. q \<noteq> p \<Longrightarrow> dptr m this \<noteq> Some q \<Longrightarrow> h' q = heap m q"
  proof -
    fix q assume a: "q \<noteq> p" "dptr m this \<noteq> Some q"
    show "h' q = heap m q"
    proof (cases "dptr m this")
      case None
      then show ?thesis using new a by simp
    next
      case (Some r)
      with a have "r \<noteq> q" by auto
      then show ?thesis using old[OF Some] a by (auto simp: deref_def split: option.splits)
    qed
  qed
  have h'old: "\<And>q b. dptr m this = Some q \<Longrightarrow> heap m q = Some b \<Longrightarrow>
                 h' q = (if ref b - 1 = 0 then None else Some (b\<lparr>ref := ref b - 1\<rparr>))"
  proof -
    fix q b assume a: "dptr m this = Some q" "heap m q = Some b"
    with nt have "q \<noteq> p" by auto
    then show "h' q = (if ref b - 1 = 0 then None else Some (b\<lparr>ref := ref b - 1\<rparr>))"
      using old[OF a(1)] a(2) by (simp add: deref_def)
  qed
  have cardold: "\<And>q b. dptr m this = Some q \<Longrightarrow> heap m q = Some b \<Longrightarrow>
                   int (card (owners (dptr m) q - {this})) = ref b - 1"
  proof -
    fix q b assume a: "dptr m this = Some q" "heap m q = Some b"
    have "this \<in> owners (dptr m) q" using a(1) by (simp add: owners_mem)
    from int_card_remove[OF finp[of q] this] wf_ref[OF w a(2)]
    show "int (card (owners (dptr m) q - {this})) = ref b - 1" by linarith
  qed
  have keep: "\<And>obj q. obj \<noteq> this \<Longrightarrow> dptr m obj = Some q \<Longrightarrow>
                \<exists>b b'. heap m q = Some b \<and> h' q = Some b' \<and> d_result b' = d_result b \<and>
                   d_statusCode b' = d_statusCode b \<and> d_nodeId b' = d_nodeId b"
  proof -
    fix obj q assume ne: "obj \<noteq> this" and dq: "dptr m obj = Some q"
    then obtain b where hq: "heap m q = Some b" using w wf_alloc by blast
    show "\<exists>b b'. heap m q = Some b \<and> h' q = Some b' \<and> d_result b' = d_result b \<and>
                   d_statusCode b' = d_statusCode b \<and> d_nodeId b' = d_nodeId b"
    proof (cases "q = p")
      case True
      with hq hp h'p show ?thesis by simp
    next
      case qp: False
      show ?thesis
      proof (cases "dptr m this = Some q")
        case True
        have "obj \<in> owners (dptr m) q - {this}" using dq ne by (simp add: owners_mem)
        then have "card (owners (dptr m) q - {this}) \<noteq> 0" using finp[of q] by auto
        then have "ref b - 1 \<noteq> 0" using cardold[OF True hq] by linarith
        then show ?thesis using h'old[OF True hq] hq by simp
      next
        case False
        then show ?thesis using h'other[OF qp False] hq by simp
      qed
    qed
  qed
  have wf': "wf_memory ?m'"
  proof (rule wf_memoryI)
    show "finite (dom (dptr ?m'))" using fin by simp
  next
    fix obj q assume a: "dptr ?m' obj = Some q"
    show "\<exists>b. heap ?m' q = Some b"
    proof (cases "obj = this")
      case True
      with a h'p show ?thesis by simp
    next
      case False
      with a have "dptr m obj = Some q" by simp
      from keep[OF False this] show ?thesis by auto
    qed
  next
    fix q b assume a: "heap ?m' q = Some b"
    show "q < brk ?m'"
    proof (cases "q = p")
      case True
      then show ?thesis using px by simp
    next
      case qp: False
      show ?thesis
      proof (cases "dptr m this = Some q")
        case True
        then obtain b0 where "heap m q = Some b0" using w wf_alloc by blast
        then show ?thesis using wf_below[OF w] by simp
      next
        case False
        then show ?thesis using h'other[OF qp False] a wf_below[OF w] by simp
      qed
    qed
  next
    fix q b assume a: "heap ?m' q = Some b"
    show "ref b = int (card (owners (dptr ?m') q))"
    proof (cases "q = p")
      case True
      with a h'p have "ref b = ref blk + 1" by auto
      then show ?thesis using True refp int_card_insert[OF finp[of p] notp]
        by (simp add: owners_upd)
    next
      case qp: False
      show ?thesis
      proof (cases "dptr m this = Some q")
        case True
        then obtain b0 where h0: "heap m q = Some b0" using w wf_alloc by blast
        have "ref b = ref b0 - 1" using h'old[OF True h0] a by (auto split: if_splits)
        then show ?thesis using cardold[OF True h0] qp by (simp add: owners_upd)
      next
        case False
        then have "this \<notin> owners (dptr m) q" by (simp add: owners_mem)
        moreover have "heap m q = Some b" using h'other[OF qp False] a by simp
        ultimately show ?thesis using wf_ref[OF w] qp by (simp add: owners_upd)
      qed
    qed
  qed
  have oth: "\<forall>obj. dptr m obj \<noteq> None \<longrightarrow> obj \<noteq> this \<longrightarrow>
            map_option (\<lambda>b. (d_result b, d_statusCode b, d_nodeId b)) (case dptr m obj of None \<Rightarrow> None | Some q \<Rightarrow> h' q)
            = observable obj m"
  proof (intro allI impI)
    fix obj assume l: "dptr m obj \<noteq> None" and ne: "obj \<noteq> this"
    then obtain q where dq: "dptr m obj = Some q" by auto
    from keep[OF ne dq] dq
    show "map_option (\<lambda>b. (d_result b, d_statusCode b, d_nodeId b)) (case dptr m obj of None \<Rightarrow> None | Some q \<Rightarrow> h' q)
            = observable obj m"
      by (auto simp: observable_def const_data_def)
  qed
  show ?thesis using wf' oth h'p by simp
qed


lemma copy_effect:
  assumes w: "wf_memory m" and fresh: "dptr m this = None"
    and c: "const_data other m = Some blk"
  shows "\<exists>m'. QOpcUaHistoryData_copy this other m = Some m' \<and> wf_memory m' \<and>
           observable this m' = observable other m \<and>
           (\<forall>obj. obj \<noteq> this \<longrightarrow> observable obj m' = observable obj m)"
proof -
  from c obtain p where dp: "dptr m other = Some p" and hp: "heap m p = Some blk"
    by (auto simp: const_data_def split: option.splits)
  let ?h' = "(heap m)(p \<mapsto> blk\<lparr>ref := ref blk + 1\<rparr>)"
  let ?m' = "m\<lparr>heap := ?h', dptr := (dptr m)(this \<mapsto> p)\<rparr>"
  have e: "QOpcUaHistoryData_copy this other m = Some ?m'"
    using dp hp by (simp add: QOpcUaHistoryData_copy_def)
  have nt: "dptr m this \<noteq> Some p" using fresh by simp
  from share_effect[OF w nt hp, of ?h'] fresh
  have w': "wf_memory ?m'"
    and oth: "\<And>obj. dptr m obj \<noteq> None \<Longrightarrow> obj \<noteq> this \<Longrightarrow>
            map_option (\<lambda>b. (d_result b, d_statusCode b, d_nodeId b)) (case dptr m obj of None \<Rightarrow> None | Some q \<Rightarrow> ?h' q)
            = observable obj m"
    by auto
  have me: "observable this ?m' = observable other m"
    using dp hp by (simp add: observable_def const_data_def)
  have others: "\<forall>obj. obj \<noteq> this \<longrightarrow> observable obj ?m' = observable obj m"
  proof (intro allI impI)
    fix obj assume ne: "obj \<noteq> this"
    show "observable obj ?m' = observable obj m"
    proof (cases "dptr m obj")
      case None
      with ne show ?thesis by (simp add: observable_def const_data_def)
    next
      case (Some q)
      then have "dptr m obj \<noteq> None" by simp
      from oth[OF this ne] Some ne show ?thesis
        by (simp add: observable_def const_data_def)
    qed
  qed
  show ?thesis using e w' me others by blast
qed

lemma deref_dptr:
  "deref q (m\<lparr>heap := H, dptr := D\<rparr>) = m\<lparr>heap := heap (deref q (m\<lparr>heap := H\<rparr>)), dptr := D\<rparr>"
  by (simp add: deref_def split: option.splits)

lemma assign_effect:
  assumes w: "wf_memory m" and ne: "this \<noteq> rhs"
    and live: "dptr m this \<noteq> None"
    and c: "const_data rhs m = Some blk"
  shows "\<exists>m'. assign this rhs m = Some m' \<and> wf_memory m' \<and>
           observable this m' = observable rhs m \<and>
           (\<forall>obj. obj \<noteq> this \<longrightarrow> observable obj m' = observable obj m)"
proof -
  from c obtain p where dp: "dptr m rhs = Some p" and hp: "heap m p = Some blk"
    by (auto simp: const_data_def split: option.splits)
  from live obtain old where dold: "dptr m this = Some old" by auto
  show ?thesis
  proof (cases "p = old")
    case True
    then have "assign this rhs m = Some m"
      using ne dp dold by (simp add: assign_def sdp_assign_def)
    moreover have "observable this m = observable rhs m"
      using True dp dold by (simp add: observable_def const_data_def)
    ultimately show ?thesis using w by simp
  next
    case False
    let ?H = "(heap m)(p \<mapsto> blk\<lparr>ref := ref blk + 1\<rparr>)"
    let ?h' = "heap (deref old (m\<lparr>heap := ?H\<rparr>))"
    let ?m' = "m\<lparr>heap := ?h', dptr := (dptr m)(this \<mapsto> p)\<rparr>"
    have e: "assign this rhs m = Some ?m'"
      using ne dp dold hp False by (simp add: assign_def sdp_assign_def deref_dptr)
    have nt: "dptr m this \<noteq> Some p" using dold False by simp
    from share_effect[OF w nt hp, of ?h'] dold
    have w': "wf_memory ?m'"
      and oth: "\<And>obj. dptr m obj \<noteq> None \<Longrightarrow> obj \<noteq> this \<Longrightarrow>
            map_option (\<lambda>b. (d_result b, d_statusCode b, d_nodeId b)) (case dptr m obj of None \<Rightarrow> None | Some q \<Rightarrow> ?h' q)
            = observable obj m"
      and hp': "map_option (\<lambda>b. (d_result b, d_statusCode b, d_nodeId b)) (?h' p)
            = Some (d_result blk, d_statusCode blk, d_nodeId blk)"
      by auto
    have me: "observable this ?m' = observable rhs m"
      using dp hp hp' by (simp add: observable_def const_data_def)
    have others: "\<forall>obj. obj \<noteq> this \<longrightarrow> observable obj ?m' = observable obj m"
    proof (intro allI impI)
      fix obj assume ne: "obj \<noteq> this"
      show "observable obj ?m' = observable obj m"
      proof (cases "dptr m obj")
        case None
        with ne show ?thesis by (simp add: observable_def const_data_def)
      next
        case (Some q)
        then have "dptr m obj \<noteq> None" by simp
        from oth[OF this ne] Some ne show ?thesis
          by (simp add: observable_def const_data_def)
      qed
    qed
    show ?thesis using e w' me others by blast
  qed
qed

subsection \<open>The destructor, the setters and resultRef\<close>

lemma dtor_effect:
  assumes w: "wf_memory m" and live: "dptr m this \<noteq> None"
  shows "\<exists>m'. QOpcUaHistoryData_dtor this m = Some m' \<and> wf_memory m' \<and> dptr m' this = None \<and>
           (\<forall>obj. obj \<noteq> this \<longrightarrow> observable obj m' = observable obj m)"
proof -
  from live obtain p where dp: "dptr m this = Some p" by auto
  then obtain blk where hp: "heap m p = Some blk" using w wf_alloc by blast
  let ?d = "(dptr m)(this := None)"
  let ?h = "if ref blk - 1 = 0 then (heap m)(p := None) else (heap m)(p \<mapsto> blk\<lparr>ref := ref blk - 1\<rparr>)"
  let ?m' = "m\<lparr>heap := ?h, dptr := ?d\<rparr>"
  have e: "QOpcUaHistoryData_dtor this m = Some ?m'"
    using dp hp by (simp add: QOpcUaHistoryData_dtor_def deref_def)
  have fin: "finite (dom (dptr m))" by (rule wf_finite[OF w])
  have finp: "\<And>q. finite (owners (dptr m) q)" using fin by (rule finite_owners)
  have inp: "this \<in> owners (dptr m) p" using dp by (simp add: owners_mem)
  have cardp: "int (card (owners (dptr m) p - {this})) = ref blk - 1"
    using int_card_remove[OF finp[of p] inp] wf_ref[OF w hp] by linarith
  have keep: "\<And>obj q. obj \<noteq> this \<Longrightarrow> dptr m obj = Some q \<Longrightarrow>
                \<exists>b b'. heap m q = Some b \<and> ?h q = Some b' \<and> d_result b' = d_result b \<and>
                   d_statusCode b' = d_statusCode b \<and> d_nodeId b' = d_nodeId b"
  proof -
    fix obj q assume ne: "obj \<noteq> this" and dq: "dptr m obj = Some q"
    then obtain b where hq: "heap m q = Some b" using w wf_alloc by blast
    show "\<exists>b b'. heap m q = Some b \<and> ?h q = Some b' \<and> d_result b' = d_result b \<and>
                   d_statusCode b' = d_statusCode b \<and> d_nodeId b' = d_nodeId b"
    proof (cases "q = p")
      case True
      have "obj \<in> owners (dptr m) p - {this}" using dq True ne by (simp add: owners_mem)
      then have "card (owners (dptr m) p - {this}) \<noteq> 0" using finp[of p] by auto
      then have "ref blk - 1 \<noteq> 0" using cardp by linarith
      with True hp show ?thesis by simp
    next
      case False
      with hq show ?thesis by simp
    qed
  qed
  have w': "wf_memory ?m'"
  proof (rule wf_memoryI)
    show "finite (dom (dptr ?m'))" using fin by simp
  next
    fix obj q assume a: "dptr ?m' obj = Some q"
    then have ne: "obj \<noteq> this" and dq: "dptr m obj = Some q" by (auto split: if_splits)
    from keep[OF ne dq] show "\<exists>b. heap ?m' q = Some b" by auto
  next
    fix q b assume a: "heap ?m' q = Some b"
    show "q < brk ?m'"
    proof (cases "q = p")
      case True
      then show ?thesis using wf_below[OF w hp] by simp
    next
      case False
      with a have "heap m q = Some b" by (simp split: if_splits)
      then show ?thesis using wf_below[OF w] by simp
    qed
  next
    fix q b assume a: "heap ?m' q = Some b"
    show "ref b = int (card (owners (dptr ?m') q))"
    proof (cases "q = p")
      case True
      with a have "ref b = ref blk - 1" by (auto split: if_splits)
      with True cardp show ?thesis by (simp add: owners_del)
    next
      case False
      with a have hq: "heap m q = Some b" by (simp split: if_splits)
      have "this \<notin> owners (dptr m) q" using dp False by (simp add: owners_mem)
      with wf_ref[OF w hq] show ?thesis by (simp add: owners_del)
    qed
  qed
  have others: "\<forall>obj. obj \<noteq> this \<longrightarrow> observable obj ?m' = observable obj m"
  proof (intro allI impI)
    fix obj assume ne: "obj \<noteq> this"
    show "observable obj ?m' = observable obj m"
    proof (cases "dptr m obj")
      case None
      with ne show ?thesis by (simp add: observable_def const_data_def)
    next
      case (Some q)
      from keep[OF ne Some] Some ne show ?thesis
        by (auto simp: observable_def const_data_def)
    qed
  qed
  show ?thesis using e w' others by auto
qed




lemma wf_ref_write:
  assumes w: "wf_memory m" and e: "ref_write r ys m = Some m'"
  shows "wf_memory m'"
proof -
  from e obtain blk where h: "heap m r = Some blk"
    and m': "m' = m\<lparr>heap := (heap m)(r \<mapsto> blk\<lparr>d_result := ys\<rparr>)\<rparr>"
    by (auto simp: ref_write_def split: option.splits)
  show ?thesis unfolding m' using w h by (rule wf_heap_touch) simp
qed


subsection \<open>Every reachable store satisfies the invariant\<close>

lemma mutable_data_live:
  "mutable_data this f m = Some m' \<Longrightarrow> \<exists>blk. const_data this m = Some blk"
  by (auto simp: mutable_data_def detach_def const_data_def split: option.splits)

lemma wf_mutable_data:
  assumes w: "wf_memory m" and e: "mutable_data this f m = Some m'" and f: "\<And>b. ref (f b) = ref b"
  shows "wf_memory m'"
proof -
  from mutable_data_live[OF e] obtain blk where c: "const_data this m = Some blk" by blast
  from mutable_data_effect[OF w c, of f] f e show ?thesis by auto
qed

lemma reachable_wf_memory: "reachable m \<Longrightarrow> wf_memory m"
proof (induction rule: reachable.induct)
  case start
  show ?case by (rule wf_memory_empty)
next
  case (constructed m this m')
  from ctor_effect[OF constructed.IH constructed.hyps(2)] constructed.hyps(3)
  show ?case by auto
next
  case (constructed_nodeId m this nid m')
  from ctor_nodeId_effect[OF constructed_nodeId.IH constructed_nodeId.hyps(2), of nid]
    constructed_nodeId.hyps(3)
  show ?case by auto
next
  case (copied m this other m')
  from copied.hyps(3) obtain blk where "const_data other m = Some blk"
    by (auto simp: QOpcUaHistoryData_copy_def const_data_def split: option.splits)
  from copy_effect[OF copied.IH copied.hyps(2) this] copied.hyps(3)
  show ?case by auto
next
  case (destroyed m this m')
  from destroyed.hyps(2) have "dptr m this \<noteq> None"
    by (auto simp: QOpcUaHistoryData_dtor_def split: option.splits)
  from dtor_effect[OF destroyed.IH this] destroyed.hyps(2)
  show ?case by auto
next
  case (assigned m this rhs m')
  show ?case
  proof (cases "this = rhs")
    case True
    with assigned.hyps(2) have "m' = m" by (auto simp: assign_def split: option.splits)
    with assigned.IH show ?thesis by simp
  next
    case False
    from assigned.hyps(2) False obtain old p where
      d: "dptr m this = Some old" "dptr m rhs = Some p"
      by (auto simp: assign_def sdp_assign_def split: option.splits)
    then obtain blk where "heap m p = Some blk" using assigned.IH wf_alloc by blast
    with d have c: "const_data rhs m = Some blk" by (simp add: const_data_def)
    from d have l: "dptr m this \<noteq> None" by simp
    from assign_effect[OF assigned.IH False l c] assigned.hyps(2)
    show ?thesis by auto
  qed
next
  case (status_set m this c m')
  then show ?case by (auto simp: setStatusCode_def intro: wf_mutable_data)
next
  case (nodeId_set m this nid m')
  then show ?case by (auto simp: setNodeId_def intro: wf_mutable_data)
next
  case (value_added m this v m')
  then show ?case by (auto simp: addValue_def intro: wf_mutable_data)
next
  case (result_referenced m this r m')
  from result_referenced.hyps(2) have "detach this m = Some m'"
    by (auto simp: resultRef_def split: option.splits)
  with result_referenced.IH show ?case by (rule wf_detach)
next
  case (reference_written m r ys m')
  then show ?case by (auto intro: wf_ref_write)
qed

lemma count_observable:
  "count this m = map_option (\<lambda>(xs, c, n). int (length xs)) (observable this m)"
  by (simp add: count_def observable_def option.map_comp comp_def)

lemma result_observable:
  "result this m = map_option fst (observable this m)"
  by (simp add: result_def observable_def option.map_comp comp_def)




subsection \<open>A mutation of one record leaves the others alone\<close>



subsection \<open>The sample stores\<close>

lemma owners_empty: "owners Map.empty p = {}"
  by (simp add: owners_def)

lemma wf_one_record: "wf_memory one_record"
  by (rule wf_memoryI) (auto simp: one_record_def owners_upd owners_empty split: if_splits)


lemma observable_of_result:
  "result this m = Some xs \<Longrightarrow> \<exists>c n. observable this m = Some (xs, c, n)"
  by (auto simp: result_def observable_def)

subsection \<open>Appending samples\<close>

text \<open>
  Claim C8.  In a consistent store, the empty one included: a record constructed by
  either constructor at a free address \<open>a\<close> and then given the samples \<open>vs\<close> by
  successive calls of \<^verbatim>\<open>addValue\<close> has \<^verbatim>\<open>count()\<close> equal to the number of calls
  and \<^verbatim>\<open>result()\<close> equal to the samples in the order of the calls.  For any live
  record \<open>b\<close> holding \<open>xs\<close>, and for a copy of it constructed at a free address, the
  calls append at the end and keep the existing entries in place: \<^verbatim>\<open>result()\<close>
  becomes \<open>xs @ vs\<close> and \<^verbatim>\<open>count()\<close> grows by the number of calls.  In every store
  \<^verbatim>\<open>count()\<close> is the length of \<^verbatim>\<open>result()\<close>.
\<close>

theorem addValue_count_and_order:
  assumes w: "wf_memory m"
  shows "(dptr m a = None \<longrightarrow>
            (\<exists>m0 m'. QOpcUaHistoryData a m = Some m0 \<and> addValues a vs m0 = Some m' \<and>
               count a m' = Some (int (length vs)) \<and> result a m' = Some vs)) \<and>
         (dptr m a = None \<longrightarrow>
            (\<exists>m0 m'. QOpcUaHistoryData_nodeId a nid m = Some m0 \<and> addValues a vs m0 = Some m' \<and>
               count a m' = Some (int (length vs)) \<and> result a m' = Some vs)) \<and>
         (result b m = Some xs \<longrightarrow>
            (\<exists>m'. addValues b vs m = Some m' \<and>
               count b m' = Some (int (length xs) + int (length vs)) \<and>
               result b m' = Some (xs @ vs))) \<and>
         (dptr m a = None \<and> result b m = Some xs \<longrightarrow>
            (\<exists>m0 m'. QOpcUaHistoryData_copy a b m = Some m0 \<and> addValues a vs m0 = Some m' \<and>
               count a m' = Some (int (length xs) + int (length vs)) \<and>
               result a m' = Some (xs @ vs))) \<and>
         count b m = map_option (\<lambda>ys. int (length ys)) (result b m)"
proof (intro conjI impI)
  assume fresh: "dptr m a = None"
  from ctor_effect[OF w fresh] obtain m0 where
    c: "QOpcUaHistoryData a m = Some m0" and w0: "wf_memory m0"
    and o0: "observable a m0 = Some ([], Good, [])" by blast
  from addValues_effect[OF w0 o0, of vs] obtain m' where
    "addValues a vs m0 = Some m'" "observable a m' = Some ([] @ vs, Good, [])" by blast
  with c show "\<exists>m0 m'. QOpcUaHistoryData a m = Some m0 \<and> addValues a vs m0 = Some m' \<and>
            count a m' = Some (int (length vs)) \<and> result a m' = Some vs"
    by (simp add: count_observable result_observable)
next
  assume fresh: "dptr m a = None"
  from ctor_nodeId_effect[OF w fresh, of nid] obtain m0 where
    c: "QOpcUaHistoryData_nodeId a nid m = Some m0" and w0: "wf_memory m0"
    and o0: "observable a m0 = Some ([], Good, nid)" by blast
  from addValues_effect[OF w0 o0, of vs] obtain m' where
    "addValues a vs m0 = Some m'" "observable a m' = Some ([] @ vs, Good, nid)" by blast
  with c show "\<exists>m0 m'. QOpcUaHistoryData_nodeId a nid m = Some m0 \<and> addValues a vs m0 = Some m' \<and>
            count a m' = Some (int (length vs)) \<and> result a m' = Some vs"
    by (simp add: count_observable result_observable)
next
  assume live: "result b m = Some xs"
  from observable_of_result[OF live] obtain c n where o: "observable b m = Some (xs, c, n)"
    by blast
  from addValues_effect[OF w o, of vs] obtain m' where
    "addValues b vs m = Some m'" "observable b m' = Some (xs @ vs, c, n)" by blast
  then show "\<exists>m'. addValues b vs m = Some m' \<and>
            count b m' = Some (int (length xs) + int (length vs)) \<and> result b m' = Some (xs @ vs)"
    by (simp add: count_observable result_observable)
next
  assume both: "dptr m a = None \<and> result b m = Some xs"
  then have fresh: "dptr m a = None" and live: "result b m = Some xs" by simp_all
  from observable_of_result[OF live] obtain c n where o: "observable b m = Some (xs, c, n)"
    by blast
  then obtain blk where cb: "const_data b m = Some blk" by (auto simp: observable_def)
  from copy_effect[OF w fresh cb] o obtain m0 where
    c0: "QOpcUaHistoryData_copy a b m = Some m0" and w0: "wf_memory m0"
    and o0: "observable a m0 = Some (xs, c, n)" by auto
  from addValues_effect[OF w0 o0, of vs] obtain m' where
    "addValues a vs m0 = Some m'" "observable a m' = Some (xs @ vs, c, n)" by blast
  with c0 show "\<exists>m0 m'. QOpcUaHistoryData_copy a b m = Some m0 \<and> addValues a vs m0 = Some m' \<and>
            count a m' = Some (int (length xs) + int (length vs)) \<and> result a m' = Some (xs @ vs)"
    by (simp add: count_observable result_observable)
next
  show "count b m = map_option (\<lambda>ys. int (length ys)) (result b m)"
    by (simp add: count_def result_def option.map_comp comp_def)
qed

theorem addValue_count_and_order_witness:
  "wf_memory (empty_memory :: nat memory) \<and> dptr (empty_memory :: nat memory) 0 = None \<and>
   (\<exists>m0 m'. QOpcUaHistoryData 0 empty_memory = Some m0 \<and> addValues 0 [1, 2, 3::nat] m0 = Some m' \<and>
      count 0 m' = Some 3 \<and> result 0 m' = Some [1, 2, 3]) \<and>
   (\<exists>m0 m'. QOpcUaHistoryData_nodeId 0 ''ns=2;s=Flow'' empty_memory = Some m0 \<and>
      addValues 0 [1, 2, 3::nat] m0 = Some m' \<and> count 0 m' = Some 3 \<and> result 0 m' = Some [1, 2, 3]) \<and>
   wf_memory one_record \<and> dptr one_record 6 = None \<and> result 5 one_record = Some [7] \<and>
   (\<exists>m'. addValues 5 [1, 2, 3] one_record = Some m' \<and>
      count 5 m' = Some 4 \<and> result 5 m' = Some [7, 1, 2, 3]) \<and>
   (\<exists>m0 m'. QOpcUaHistoryData_copy 6 5 one_record = Some m0 \<and> addValues 6 [1, 2, 3] m0 = Some m' \<and>
      count 6 m' = Some 4 \<and> result 6 m' = Some [7, 1, 2, 3])"
proof -
  have e1: "wf_memory (empty_memory :: nat memory)" by (rule wf_memory_empty)
  have e2: "dptr (empty_memory :: nat memory) 0 = None" by (simp add: empty_memory_def)
  have h1: "wf_memory one_record" by (rule wf_one_record)
  have h2: "dptr one_record 6 = None" by (simp add: one_record_def)
  have h3: "result 5 one_record = Some [7]"
    by (simp add: one_record_def result_def const_data_def)
  show ?thesis
    using addValue_count_and_order[OF e1, of 0 "[1, 2, 3]" "''ns=2;s=Flow''"]
      addValue_count_and_order[OF h1, of 6 "[1, 2, 3]" _ 5 "[7]"] e1 e2 h1 h2 h3
    by simp
qed

subsection \<open>Copy-on-write\<close>


lemma shared_record_wf: "wf_memory shared_record"
  by (rule wf_memoryI) (auto simp: shared_record_def owners_upd owners_empty split: if_splits)





section \<open>Properties of OpcUaMethodNode\<close>

subsection \<open>callMethod\<close>

lemma push_arguments_map:
  "push_arguments items arguments = arguments @ map (\<lambda>item. (arg_value item, arg_type item)) items"
  by (induction items arbitrary: arguments) simp_all

lemma callMethod_unresolved:
  "resolved_object_node s = None \<Longrightarrow> callMethod s = setStatus InvalidObjectNode [] s"
  by (cases "m_objectNode s") (simp_all add: callMethod_def resolved_object_node_def)

lemma callMethod_no_method:
  "resolved_object_node s \<noteq> None \<Longrightarrow> m_node s = None \<Longrightarrow> callMethod s = setStatus InvalidNodeId [] s"
  by (cases "m_objectNode s") (auto simp: callMethod_def resolved_object_node_def)

text \<open>
  Claim C1, as stated, fails: \<^verbatim>\<open>callMethod\<close> reports a precondition failure through
  \<^verbatim>\<open>setStatus\<close>, and \<^verbatim>\<open>m_resultStatusCode\<close>, which \<^verbatim>\<open>resultStatusCode()\<close>
  returns, keeps whatever value it had.  With no object node set the status becomes
  \<open>InvalidObjectNode\<close>, while a result code \<open>Good\<close> stays \<open>Good\<close> and a result code
  \<open>BadUnexpectedError\<close> stays \<open>BadUnexpectedError\<close>.
\<close>

theorem callMethod_resultStatusCode_counterexample:
  "resolved_object_node fresh_node = None \<and>
   m_status (callMethod fresh_node) = InvalidObjectNode \<and>
   m_resultStatusCode (callMethod fresh_node) = Good \<and>
   m_resultStatusCode (callMethod (fresh_node\<lparr>m_resultStatusCode := BadUnexpectedError\<rparr>))
     = BadUnexpectedError"
  by (simp add: callMethod_def resolved_object_node_def fresh_node_def setStatus_def)

text \<open>
  Claim C1, amended.  The preconditions are checked in order and the first failure
  wins: when the object node is missing or unresolved the status becomes
  \<open>InvalidObjectNode\<close> (whatever the method node is); when the object node is resolved
  and the method node is missing the status becomes \<open>InvalidNodeId\<close>.  In both cases
  no request is submitted, and the result code and the output arguments are unchanged.
\<close>

theorem callMethod_precondition_failures:
  "(resolved_object_node s = None \<longrightarrow>
      m_status (callMethod s) = InvalidObjectNode \<and>
      remote_calls (callMethod s) = remote_calls s \<and>
      m_resultStatusCode (callMethod s) = m_resultStatusCode s \<and>
      m_outputArguments (callMethod s) = m_outputArguments s) \<and>
   (resolved_object_node s \<noteq> None \<and> m_node s = None \<longrightarrow>
      m_status (callMethod s) = InvalidNodeId \<and>
      remote_calls (callMethod s) = remote_calls s \<and>
      m_resultStatusCode (callMethod s) = m_resultStatusCode s \<and>
      m_outputArguments (callMethod s) = m_outputArguments s)"
  by (simp add: callMethod_unresolved callMethod_no_method setStatus_def)

theorem callMethod_precondition_failures_witness:
  "resolved_object_node fresh_node = None \<and>
   m_status (callMethod fresh_node) = InvalidObjectNode \<and>
   remote_calls (callMethod fresh_node) = [] \<and>
   m_resultStatusCode (callMethod fresh_node) = Good \<and>
   resolved_object_node (with_object example_object fresh_node) \<noteq> None \<and>
   m_node (with_object example_object fresh_node) = None \<and>
   m_status (callMethod (with_object example_object fresh_node)) = InvalidNodeId \<and>
   remote_calls (callMethod (with_object example_object fresh_node)) = [] \<and>
   m_resultStatusCode (callMethod (with_object example_object fresh_node)) = Good"
proof -
  have h1: "resolved_object_node fresh_node = None"
    by (simp add: resolved_object_node_def fresh_node_def)
  have h2: "resolved_object_node (with_object example_object fresh_node) \<noteq> None \<and>
            m_node (with_object example_object fresh_node) = None"
    by (simp add: resolved_object_node_def with_object_def fresh_node_def)
  show ?thesis
    using callMethod_precondition_failures[of fresh_node]
      callMethod_precondition_failures[of "with_object example_object fresh_node"] h1 h2
    by (simp add: fresh_node_def with_object_def)
qed

subsection \<open>The completion handler\<close>

text \<open>
  Claim C2.  Whatever the state before, the completion handler stores the delivered
  status code, and the output arguments become the delivered list when the result
  converts to one (the empty list included) and the one-element list holding the result
  otherwise.  The list is replaced, not extended: the outputs of an earlier completion
  leave no trace.
\<close>

theorem handleMethodCallFinished_result:
  "m_resultStatusCode (handleMethodCallFinished methodNodeId res code s) = code \<and>
   m_outputArguments (handleMethodCallFinished methodNodeId res code s) =
     (if canConvert_QVariantList res then value_QVariantList res else [res]) \<and>
   m_outputArguments (handleMethodCallFinished methodNodeId (VList xs) code s) = xs \<and>
   m_outputArguments (handleMethodCallFinished methodNodeId (VList []) code s) = [] \<and>
   m_outputArguments (handleMethodCallFinished methodNodeId (VInt n) code s) = [VInt n] \<and>
   m_outputArguments (handleMethodCallFinished methodNodeId (VString str) code s) = [VString str] \<and>
   m_outputArguments (handleMethodCallFinished methodNodeId (VBool b) code s) = [VBool b] \<and>
   m_outputArguments
     (handleMethodCallFinished methodNodeId res code (handleMethodCallFinished methodNodeId' res' code' s)) =
     m_outputArguments (handleMethodCallFinished methodNodeId res code s)"
  by (simp add: handleMethodCallFinished_def emit_signal_def Let_def)

text \<open>
  Claim C3 does not hold of the handler: it never looks at the status code.  A
  completion with the failure code \<open>BadUnexpectedError\<close> and a default-constructed
  result leaves one output argument, the invalid variant.
\<close>

theorem failed_call_output_not_empty:
  "BadUnexpectedError \<noteq> Good \<and>
   m_resultStatusCode (handleMethodCallFinished ''ns=2;s=Example.Method'' Invalid BadUnexpectedError fresh_node)
     = BadUnexpectedError \<and>
   m_outputArguments (handleMethodCallFinished ''ns=2;s=Example.Method'' Invalid BadUnexpectedError fresh_node)
     = [Invalid]"
  by (simp add: handleMethodCallFinished_def emit_signal_def Let_def BadUnexpectedError_def Good_def)

subsection \<open>checkValidity\<close>

text \<open>
  Claim C5.  With the method node set, \<^verbatim>\<open>checkValidity\<close> submits no request and
  decides in this order: the class of the method node is not \<open>Method\<close>: false with
  status \<open>InvalidNodeType\<close>; the object node is missing or unresolved: false with status
  \<open>InvalidObjectNode\<close>; the class of the object node is neither \<open>Object\<close> nor
  \<open>ObjectType\<close>: false with status \<open>InvalidObjectNode\<close> and a non-empty message;
  otherwise true, with the state untouched.
\<close>

theorem checkValidity_cases:
  assumes "m_node s = Some node"
  shows "\<exists>ok s'. checkValidity s = Inr (ok, s') \<and> remote_calls s' = remote_calls s \<and>
     (if node_class node \<noteq> Method then \<not> ok \<and> m_status s' = InvalidNodeType
      else (case resolved_object_node s of
              None \<Rightarrow> \<not> ok \<and> m_status s' = InvalidObjectNode
            | Some target \<Rightarrow>
                if node_class target \<noteq> Object \<and> node_class target \<noteq> ObjectType
                then \<not> ok \<and> m_status s' = InvalidObjectNode \<and>
                     m_errorMessage s' = object_node_message \<and> m_errorMessage s' \<noteq> []
                else ok \<and> s' = s))"
  using assms
  by (auto simp: checkValidity_def resolved_object_node_def setStatus_def Let_def
        object_node_message_def split: option.splits)

theorem checkValidity_cases_witness:
  "(\<exists>s'. checkValidity (fresh_node\<lparr>m_node := Some example_variable\<rparr>) = Inr (False, s') \<and>
      m_status s' = InvalidNodeType) \<and>
   (\<exists>s'. checkValidity (fresh_node\<lparr>m_node := Some example_method\<rparr>) = Inr (False, s') \<and>
      m_status s' = InvalidObjectNode) \<and>
   (\<exists>s'. checkValidity (with_object example_variable (fresh_node\<lparr>m_node := Some example_method\<rparr>))
        = Inr (False, s') \<and>
      m_status s' = InvalidObjectNode \<and> m_errorMessage s' = object_node_message) \<and>
   checkValidity (with_object example_object (fresh_node\<lparr>m_node := Some example_method\<rparr>))
     = Inr (True, with_object example_object (fresh_node\<lparr>m_node := Some example_method\<rparr>))"
proof -
  have a: "m_node (fresh_node\<lparr>m_node := Some example_variable\<rparr>) = Some example_variable"
    by simp
  have b: "m_node (fresh_node\<lparr>m_node := Some example_method\<rparr>) = Some example_method"
    by simp
  have c: "m_node (with_object example_variable (fresh_node\<lparr>m_node := Some example_method\<rparr>))
             = Some example_method"
    by (simp add: with_object_def)
  have d: "m_node (with_object example_object (fresh_node\<lparr>m_node := Some example_method\<rparr>))
             = Some example_method"
    by (simp add: with_object_def)
  show ?thesis
    using checkValidity_cases[OF a] checkValidity_cases[OF b] checkValidity_cases[OF c]
      checkValidity_cases[OF d]
    by (auto simp: resolved_object_node_def with_object_def fresh_node_def example_variable_def
          example_method_def example_object_def)
qed

subsection \<open>Notifications of a completion\<close>

lemma notifications_single:
  "map fst (notifications (handleMethodCallFinished methodNodeId res code s)) =
     map fst (notifications s) @ [ResultStatusCodeChanged code, OutputArgumentsChanged]"
  by (simp add: handleMethodCallFinished_def emit_signal_def Let_def)

lemma notifications_completions:
  "map fst (notifications (completions events s)) =
     map fst (notifications s) @
       concat (map (\<lambda>(methodNodeId, res, code). [ResultStatusCodeChanged code, OutputArgumentsChanged]) events)"
proof (induction events arbitrary: s)
  case Nil
  show ?case by simp
next
  case (Cons e events)
  obtain methodNodeId res code where e: "e = (methodNodeId, res, code)" by (cases e)
  show ?case by (simp add: e Cons.IH notifications_single)
qed

text \<open>
  Claim C6.  A completion adds exactly two notifications, first the one for the result
  code and then the one for the output arguments, and a slot running during either of
  them reads the new result code and the new output arguments.  Over any sequence of
  completions the notifications come in such pairs, one pair per completion in the
  order of the completions.
\<close>

theorem notification_order:
  "(let s' = handleMethodCallFinished methodNodeId res code s
    in m_resultStatusCode s' = code \<and>
       notifications s' =
         notifications s @
           [(ResultStatusCodeChanged code, m_resultStatusCode s', m_outputArguments s'),
            (OutputArgumentsChanged, m_resultStatusCode s', m_outputArguments s')]) \<and>
   map fst (notifications (completions events s)) =
     map fst (notifications s) @
       concat (map (\<lambda>(methodNodeId, res, code). [ResultStatusCodeChanged code, OutputArgumentsChanged])
                events)"
proof
  show "let s' = handleMethodCallFinished methodNodeId res code s
    in m_resultStatusCode s' = code \<and>
       notifications s' =
         notifications s @
           [(ResultStatusCodeChanged code, m_resultStatusCode s', m_outputArguments s'),
            (OutputArgumentsChanged, m_resultStatusCode s', m_outputArguments s')]"
    by (simp add: handleMethodCallFinished_def emit_signal_def Let_def)
next
  show "map fst (notifications (completions events s)) =
     map fst (notifications s) @
       concat (map (\<lambda>(methodNodeId, res, code). [ResultStatusCodeChanged code, OutputArgumentsChanged])
                events)"
    by (rule notifications_completions)
qed

subsection \<open>Submitting a call\<close>

text \<open>
  Claim C7.  When the object node is resolved and the method node is set,
  \<^verbatim>\<open>callMethod\<close> submits one request on the resolved object node for the node id of
  the method node; its arguments are the (value, type) pairs of the input arguments,
  position by position.  Nothing else changes: the result code and the output
  arguments are those of before, and the function returns without waiting for the
  completion.
\<close>

theorem callMethod_submits_arguments:
  assumes "m_objectNode s = Some objectNode" and "obj_node objectNode = Some target"
    and "m_node s = Some node"
  shows "\<exists>arguments.
           callMethod s = s\<lparr>remote_calls := remote_calls s @ [(node_ptr target, node_nodeId node, arguments)]\<rparr> \<and>
           arguments = map (\<lambda>item. (arg_value item, arg_type item)) (m_inputArguments s) \<and>
           length arguments = length (m_inputArguments s) \<and>
           (\<forall>i < length (m_inputArguments s).
              arguments ! i = (arg_value (m_inputArguments s ! i), arg_type (m_inputArguments s ! i))) \<and>
           m_resultStatusCode (callMethod s) = m_resultStatusCode s \<and>
           m_outputArguments (callMethod s) = m_outputArguments s"
  using assms
  by (simp add: callMethod_def QOpcUaNode_callMethod_def push_arguments_map)

theorem callMethod_submits_arguments_witness:
  "remote_calls (callMethod ((with_object example_object fresh_node)
      \<lparr>m_node := Some example_method, m_inputArguments := example_arguments\<rparr>))
     = [(301, ''ns=2;s=Example.Method'', [(VInt 3, Double), (VInt 4, Double)])] \<and>
   m_resultStatusCode (callMethod ((with_object example_object fresh_node)
      \<lparr>m_node := Some example_method, m_inputArguments := example_arguments\<rparr>)) = Good \<and>
   m_outputArguments (callMethod ((with_object example_object fresh_node)
      \<lparr>m_node := Some example_method, m_inputArguments := example_arguments\<rparr>)) = []"
proof -
  let ?s = "(with_object example_object fresh_node)
      \<lparr>m_node := Some example_method, m_inputArguments := example_arguments\<rparr>"
  have a: "m_objectNode ?s = Some \<lparr>obj_ptr = 150, obj_nodeId = Some 1, obj_node = Some example_object\<rparr>"
    by (simp add: with_object_def)
  have b: "obj_node \<lparr>obj_ptr = 150, obj_nodeId = Some 1, obj_node = Some example_object\<rparr>
             = Some example_object"
    by simp
  have c: "m_node ?s = Some example_method" by simp
  show ?thesis
    using callMethod_submits_arguments[OF a b c]
    by (auto simp: with_object_def fresh_node_def example_object_def example_method_def
          example_arguments_def)
qed

subsection \<open>Replacing the object node identity\<close>

text \<open>
  Claim C9 does not hold of \<^verbatim>\<open>setObjectNodeId\<close>.  After the identity object 1 has
  been replaced by the identity object 2 and the event loop has deleted the discarded
  resolution, the connection of \<^verbatim>\<open>nodeChanged\<close> of identity object 1 is still
  there: \<^verbatim>\<open>disconnect(m_objectNodeId)\<close> removes connections from this object to the
  identity object, and the connection made goes the other way.  A change of identity
  object 1 therefore runs \<^verbatim>\<open>handleObjectNodeIdChanged\<close> again: the current
  resolution (201) is queued for deletion, a new one (202) is created and the
  notification is emitted a third time.
\<close>

theorem stale_identity_triggers_resolution:
  "(let s = deferred_delete_event (setObjectNodeId (Some 2) (setObjectNodeId (Some 1) fresh_node));
        s' = signal_emitted 1 NodeChanged ([], Invalid, Good) s
    in (1, NodeChanged, 100, HandleObjectNodeIdChanged) \<in> set (connections s) \<and>
       m_objectNodeId s = Some 2 \<and>
       m_objectNode s = Some \<lparr>obj_ptr = 201, obj_nodeId = Some 2, obj_node = None\<rparr> \<and>
       m_objectNode s' = Some \<lparr>obj_ptr = 202, obj_nodeId = Some 2, obj_node = None\<rparr> \<and>
       deferred_delete s' = [201] \<and>
       map fst (notifications s') = [ObjectNodeIdChanged, ObjectNodeIdChanged, ObjectNodeIdChanged])"
  by (simp add: setObjectNodeId_def handleObjectNodeIdChanged_def connect_def disconnect_def
        deleteLater_def deferred_delete_event_def emit_signal_def signal_emitted_def slots_of_def
        new_OpcUaNode_def OpcUaNode_setNodeId_def fresh_node_def Let_def)

subsection \<open>The domain of checkValidity\<close>

text \<open>
  Claim C10.  \<^verbatim>\<open>checkValidity\<close> faults exactly when no method node is set and
  returns a result exactly when one is set; \<^verbatim>\<open>callMethod\<close> with no method node
  set returns with a failure status and submits nothing.
\<close>

theorem checkValidity_needs_method_node:
  "(checkValidity s = Inl NullPointerDereference) = (m_node s = None) \<and>
   (\<exists>r. checkValidity s = Inr r) = (m_node s \<noteq> None) \<and>
   m_status (callMethod (s\<lparr>m_node := None\<rparr>)) =
     (if resolved_object_node s = None then InvalidObjectNode else InvalidNodeId) \<and>
   remote_calls (callMethod (s\<lparr>m_node := None\<rparr>)) = remote_calls s"
  by (auto simp: checkValidity_def callMethod_def resolved_object_node_def setStatus_def Let_def
        split: option.splits)

subsection \<open>What setObjectNodeId does achieve\<close>

text \<open>
  A second readiness notification adds no second subscription, and
  \<^verbatim>\<open>setObjectNodeId\<close> creates a new unresolved resolution bound to the new identity and
  queues the previous one for deletion.
\<close>

lemma readyToUseLambda_subscribes_once:
  "readyToUseLambda (readyToUseLambda s) = readyToUseLambda s"
  by (auto simp: readyToUseLambda_def connect_def split: option.splits)

lemma setObjectNodeId_new_resolution:
  "m_objectNodeId (setObjectNodeId node s) = node \<and>
   m_objectNode (setObjectNodeId node s) =
     Some \<lparr>obj_ptr = next_ptr s, obj_nodeId = node, obj_node = None\<rparr> \<and>
   deferred_delete (setObjectNodeId node s) =
     deferred_delete s @ (case m_objectNode s of None \<Rightarrow> [] | Some old \<Rightarrow> [obj_ptr old])"
  by (auto simp: setObjectNodeId_def handleObjectNodeIdChanged_def connect_def disconnect_def
        deleteLater_def emit_signal_def new_OpcUaNode_def OpcUaNode_setNodeId_def Let_def
        split: option.splits)

end
